theory Spec2Isabelle
  imports Main "HOL-Library.AList"
begin

section \<open>Errors\<close>

text \<open>
  A thrown JavaScript value, reduced to the three properties the services read:
  \<open>statusCode\<close> (set by \<open>AppError\<close>, read by \<open>syncDocument\<close> and the error handler),
  the numeric \<open>code\<close> of a provider error (read by \<open>fetchDocument\<close> and
  \<open>getFileMetadata\<close>) and \<open>message\<close>. A property that is absent, or is not a number,
  is \<open>None\<close>.
\<close>

record js_error =
  statusCode :: "nat option"
  code :: "nat option"
  message :: string

text \<open>
  Modelled from the spec: the class \<open>AppError\<close> of \<open>utils/errors.ts\<close>, which is not among
  the source files. The spec has domain violations "raised as typed application errors
  carrying an HTTP status and message"; the services build one as
  \<open>new AppError(message, status)\<close> and the error handler reads the status as
  \<open>statusCode\<close>.
\<close>

definition AppError :: "string \<Rightarrow> nat \<Rightarrow> js_error" where
  "AppError msg st = \<lparr>statusCode = Some st, code = None, message = msg\<rparr>"

text \<open>An error raised by the database for a statement it rejects.\<close>

definition pg_error :: "string \<Rightarrow> js_error" where
  "pg_error msg = \<lparr>statusCode = None, code = None, message = msg\<rparr>"

section \<open>Tables of the schema\<close>

text \<open>
  Identifiers (UUIDs, Drive file ids) and colours are strings, timestamps are integers
  (milliseconds), character offsets are integers. A nullable column is an option.
\<close>

record user =
  user_id :: string
  watched_folder_id :: "string option"

record document =
  doc_id :: string
  doc_user_id :: string
  google_file_id :: string
  doc_title :: "string option"
  google_folder_id :: "string option"
  mime_type :: "string option"
  last_synced_at :: "int option"
  last_modified_at :: "int option"
  is_active :: bool
  doc_updated_at :: int

record segment =
  seg_id :: string
  seg_user_id :: string
  seg_document_id :: string
  seg_category_id :: string
  start_offset :: int
  end_offset :: int
  text_content :: string
  seg_title :: "string option"
  color :: string
  is_primary :: bool
  seg_created_at :: int
  seg_updated_at :: int

record color_usage_row =
  cu_user_id :: string
  cu_color :: string
  last_used_at :: int
  usage_count :: int

text \<open>The \<open>color_palette\<close> JSONB column: an array of strings, or some other JSON value.\<close>

datatype palette_json = PaletteArray "string list" | PaletteOther

record preferences_row =
  pref_user_id :: string
  color_palette :: "palette_json option"

section \<open>Results of a sync\<close>

text \<open>
  The declarations of \<open>SyncResult\<close> and \<open>FullSyncResult\<close> (\<open>types/sync.ts\<close>) are not among
  the source files; the fields are those of the object literals that \<open>syncDocument\<close> and
  \<open>syncAllDocuments\<close> start from and of the entries they push.
\<close>

datatype sync_status = Success | Failed

datatype conflict_type = marker_missing | document_access_lost

record orphan =
  orphan_id :: string
  orphan_title :: "string option"
  last_text :: string

record conflict =
  segment_id :: string
  ctype :: conflict_type
  details :: string

record SyncResult =
  status :: sync_status
  updated_segments :: nat
  repositioned_segments :: nat
  orphaned_segments :: "orphan list"
  conflicts :: "conflict list"

record sync_error =
  err_document_id :: string
  err_error :: string

record FullSyncResult =
  documents_synced :: nat
  documents_added :: nat
  documents_removed :: nat
  segments_updated :: nat
  errors :: "sync_error list"

text \<open>The \<open>details\<close> payload of a sync log row, before \<open>JSON.stringify\<close>.\<close>

datatype log_details =
  ErrorDetails string
  | ResultDetails SyncResult
  | FullResultDetails FullSyncResult

record sync_log_row =
  log_user_id :: string
  log_document_id :: "string option"
  log_action :: string
  log_status :: string
  log_details :: log_details

text \<open>
  The database: one list of rows per table, in insertion order. Of \<open>categories\<close> and
  \<open>tags\<close> only the primary keys are kept. \<open>uuid_counter\<close> is the state of
  \<open>gen_random_uuid()\<close>: the number of identifiers drawn so far.
\<close>

record database =
  users :: "user list"
  user_preferences :: "preferences_row list"
  categories :: "string list"
  tags :: "string list"
  documents :: "document list"
  segments :: "segment list"
  segment_tags :: "(string \<times> string) list"
  color_usage :: "color_usage_row list"
  sync_log :: "sync_log_row list"
  uuid_counter :: nat

section \<open>The document provider (services/googleDocs.ts)\<close>

text \<open>
  A fetched Google document. \<open>body_text\<close> is the plain text \<open>extractFullText\<close> computes
  from the body. \<open>namedRanges\<close> is the object of named ranges as \<open>Object.entries\<close> lists
  it: a name, and under it the \<open>namedRanges\<close> array, each element the \<open>ranges\<close> array
  of that named range (an absent array is the empty list).
\<close>

record gdoc_range =
  startIndex :: "int option"
  endIndex :: "int option"

record drive_doc =
  gdoc_title :: string
  body_text :: string
  namedRanges :: "(string \<times> gdoc_range list list) list"

record cmms_range =
  rstart :: int
  rend :: int

definition fetchDocument :: "(string \<Rightarrow> js_error + drive_doc) \<Rightarrow> string \<Rightarrow> js_error + drive_doc" where
  "fetchDocument docs_get googleDocId =
     (case docs_get googleDocId of
        Inr d \<Rightarrow> Inr d
      | Inl e \<Rightarrow>
          if code e = Some 404 then Inl (AppError ''Document not found in Google Drive'' 404)
          else if code e = Some 403 then Inl (AppError ''Permission denied for this document'' 403)
          else Inl e)"

definition startsWith :: "string \<Rightarrow> string \<Rightarrow> bool" where
  "startsWith s p = (take (length p) s = p)"

text \<open>
  One iteration of the loop of \<open>getCmmsNamedRanges\<close>: a name with the prefix and a first
  range with two numeric indices stores a range under the name without the prefix.
\<close>

definition cmms_entry ::
  "(string \<rightharpoonup> cmms_range) \<Rightarrow> string \<times> gdoc_range list list \<Rightarrow> (string \<rightharpoonup> cmms_range)" where
  "cmms_entry cmmsRanges entry =
     (case entry of (name, rangeObj) \<Rightarrow>
        if startsWith name ''cmms_segment_'' \<and> rangeObj \<noteq> [] then
          (case hd rangeObj of
             [] \<Rightarrow> cmmsRanges
           | r # _ \<Rightarrow>
               (case (startIndex r, endIndex r) of
                  (Some s, Some e) \<Rightarrow>
                    cmmsRanges(drop (length ''cmms_segment_'') name \<mapsto> \<lparr>rstart = s, rend = e\<rparr>)
                | _ \<Rightarrow> cmmsRanges))
        else cmmsRanges)"

definition getCmmsNamedRanges :: "drive_doc \<Rightarrow> (string \<rightharpoonup> cmms_range)" where
  "getCmmsNamedRanges doc = foldl cmms_entry Map.empty (namedRanges doc)"

text \<open>
  \<open>String.prototype.substring\<close>: both indices are clamped to the string, and swapped
  when the first is the larger.
\<close>

definition substring :: "string \<Rightarrow> int \<Rightarrow> int \<Rightarrow> string" where
  "substring s start fin =
     (let len = int (length s);
          a = min (max start 0) len;
          b = min (max fin 0) len;
          from = min a b;
          to = max a b
      in take (nat (to - from)) (drop (nat from) s))"

section \<open>Single-document reconciliation (services/sync.ts)\<close>

text \<open>
  The statements of \<open>syncDocument\<close> go to the database, which rejects a statement that
  breaks the schema; the rejection is thrown as an error. The statements here can break
  the type \<open>INTEGER\<close> of the two offsets, the length of \<open>documents.title\<close>, and the
  foreign key of \<open>sync_log.document_id\<close>. (Identifiers are UUIDs, as the route checks, and
  \<open>userId\<close> is the user whose row \<open>requireAuth\<close> has read.)
\<close>

text \<open>
  \<open>logSync\<close>: the \<open>INSERT\<close> into \<open>sync_log\<close>, rejected when \<open>document_id\<close> names no row of
  \<open>documents\<close>.
\<close>

definition logSync ::
  "string \<Rightarrow> string option \<Rightarrow> string \<Rightarrow> string \<Rightarrow> log_details \<Rightarrow> database
     \<Rightarrow> js_error + database" where
  "logSync userId docId action st det db =
     (if (case docId of None \<Rightarrow> True | Some i \<Rightarrow> i \<in> doc_id ` set (documents db))
      then Inr (db\<lparr>sync_log := sync_log db @
             [\<lparr>log_user_id = userId, log_document_id = docId, log_action = action,
               log_status = st, log_details = det\<rparr>]\<rparr>)
      else Inl (pg_error ''insert or update on table sync_log violates foreign key constraint''))"

definition initial_result :: SyncResult where
  "initial_result =
     \<lparr>status = Success, updated_segments = 0, repositioned_segments = 0,
      orphaned_segments = [], conflicts = []\<rparr>"

text \<open>The values of the type \<open>INTEGER\<close>.\<close>

definition int4 :: "int \<Rightarrow> bool" where
  "int4 n = (- 2147483648 \<le> n \<and> n \<le> 2147483647)"

text \<open>
  The statement \<open>UPDATE segments SET start_offset, end_offset, text_content, updated_at
  WHERE id = $4\<close> on the table, rejected when an offset is no \<open>INTEGER\<close>.
\<close>

definition update_segment_row ::
  "int \<Rightarrow> int \<Rightarrow> int \<Rightarrow> string \<Rightarrow> string \<Rightarrow> segment list \<Rightarrow> js_error + segment list" where
  "update_segment_row now s e content sid tbl =
     (if int4 s \<and> int4 e then
        Inr (map (\<lambda>row. if seg_id row = sid
                         then row\<lparr>start_offset := s, end_offset := e, text_content := content,
                                  seg_updated_at := now\<rparr>
                         else row) tbl)
      else Inl (pg_error ''value is out of range for type integer''))"

text \<open>
  The body of the loop \<open>for (const segment of dbSegments)\<close>, on the result and the
  segments table of the open transaction; a rejected \<open>UPDATE\<close> leaves the loop.
\<close>

definition reconcile_segment ::
  "int \<Rightarrow> string \<Rightarrow> (string \<rightharpoonup> cmms_range) \<Rightarrow> segment \<Rightarrow> SyncResult \<times> segment list
     \<Rightarrow> js_error + SyncResult \<times> segment list" where
  "reconcile_segment now fullText ranges sg acc =
     (case acc of (result, tbl) \<Rightarrow>
        (case ranges (seg_id sg) of
           None \<Rightarrow>
             Inr (result\<lparr>orphaned_segments := orphaned_segments result @
                         [\<lparr>orphan_id = seg_id sg, orphan_title = seg_title sg,
                           last_text = text_content sg\<rparr>],
                     conflicts := conflicts result @
                         [\<lparr>segment_id = seg_id sg, ctype = marker_missing,
                           details = ''Named range not found in Google Doc''\<rparr>]\<rparr>,
                  tbl)
         | Some r \<Rightarrow>
             (let docText = substring fullText (rstart r) (rend r);
                  textChanged = (docText \<noteq> text_content sg);
                  posChanged = (rstart r \<noteq> start_offset sg \<or> rend r \<noteq> end_offset sg)
              in if textChanged \<or> posChanged then
                   (case update_segment_row now (rstart r) (rend r) docText (seg_id sg) tbl of
                      Inl e \<Rightarrow> Inl e
                    | Inr tbl' \<Rightarrow>
                        Inr (result\<lparr>updated_segments :=
                                      (if textChanged then Suc (updated_segments result)
                                       else updated_segments result),
                                    repositioned_segments :=
                                      (if posChanged \<and> \<not> textChanged
                                       then Suc (repositioned_segments result)
                                       else repositioned_segments result)\<rparr>,
                             tbl'))
                 else Inr (result, tbl))))"

fun reconcile ::
  "int \<Rightarrow> string \<Rightarrow> (string \<rightharpoonup> cmms_range) \<Rightarrow> segment list \<Rightarrow> SyncResult \<times> segment list
     \<Rightarrow> js_error + SyncResult \<times> segment list" where
  "reconcile now fullText ranges [] acc = Inr acc"
| "reconcile now fullText ranges (sg # rest) acc =
     (case reconcile_segment now fullText ranges sg acc of
        Inl e \<Rightarrow> Inl e
      | Inr acc' \<Rightarrow> reconcile now fullText ranges rest acc')"

text \<open>The query \<open>SELECT * FROM documents WHERE id = $1 AND user_id = $2\<close>.\<close>

definition find_document :: "string \<Rightarrow> string \<Rightarrow> database \<Rightarrow> document list" where
  "find_document userId documentId db =
     filter (\<lambda>d. doc_id d = documentId \<and> doc_user_id d = userId) (documents db)"

text \<open>
  The handler \<open>catch (error)\<close> of \<open>syncDocument\<close>, on the database as the \<open>ROLLBACK\<close>
  leaves it: the failure is logged and the error thrown again; when the log row is
  rejected, the error of that statement is the one thrown.
\<close>

definition sync_catch ::
  "js_error \<Rightarrow> string \<Rightarrow> string \<Rightarrow> database \<Rightarrow> (js_error + SyncResult) \<times> database" where
  "sync_catch e userId documentId db =
     (case logSync userId (Some documentId) ''single_sync'' ''failed''
             (ErrorDetails (message e)) db of
        Inl le \<Rightarrow> (Inl le, db)
      | Inr db' \<Rightarrow> (Inl e, db'))"

text \<open>
  \<open>syncDocument\<close>. \<open>docs_get\<close> is the provider's answer for a file id and \<open>now\<close> the
  value of \<open>NOW()\<close>. The result is the thrown error or the returned \<open>SyncResult\<close>, with
  the database the call leaves. The statements before \<open>BEGIN\<close> are committed one by one;
  an error between \<open>BEGIN\<close> and \<open>COMMIT\<close> reaches the handler, whose \<open>ROLLBACK\<close> restores
  the database the transaction started from.
\<close>

definition syncDocument ::
  "(string \<Rightarrow> js_error + drive_doc) \<Rightarrow> int \<Rightarrow> string \<Rightarrow> string \<Rightarrow> database
     \<Rightarrow> (js_error + SyncResult) \<times> database" where
  "syncDocument docs_get now userId documentId db =
     (case find_document userId documentId db of
        [] \<Rightarrow> sync_catch (AppError ''Document not found'' 404) userId documentId db
      | doc # _ \<Rightarrow>
          (case fetchDocument docs_get (google_file_id doc) of
             Inl e \<Rightarrow>
               if statusCode e = Some 404 \<or> statusCode e = Some 403 then
                 (let db1 = db\<lparr>documents :=
                        map (\<lambda>d. if doc_id d = documentId
                                  then d\<lparr>is_active := False, doc_updated_at := now\<rparr> else d)
                            (documents db)\<rparr>
                  in case logSync userId (Some documentId) ''single_sync'' ''failed''
                            (ErrorDetails (message e)) db1 of
                       Inl le \<Rightarrow> sync_catch le userId documentId db1
                     | Inr db2 \<Rightarrow>
                         (Inr (initial_result\<lparr>status := Failed,
                                 conflicts := [\<lparr>segment_id = ''all'',
                                                ctype = document_access_lost,
                                                details = message e\<rparr>]\<rparr>), db2))
               else sync_catch e userId documentId db
           | Inr driveDoc \<Rightarrow>
               (let fullText = body_text driveDoc;
                    ranges = getCmmsNamedRanges driveDoc;
                    dbSegments = filter (\<lambda>s. seg_document_id s = documentId) (segments db)
                in case reconcile now fullText ranges dbSegments (initial_result, segments db) of
                     Inl e \<Rightarrow> sync_catch e userId documentId db
                   | Inr (result, tbl) \<Rightarrow>
                       if length (gdoc_title driveDoc) > 500 then
                         sync_catch (pg_error ''value too long for type character varying(500)'')
                           userId documentId db
                       else
                         (let db1 = db\<lparr>segments := tbl,
                                       documents :=
                                         map (\<lambda>d. if doc_id d = documentId
                                                   then d\<lparr>last_synced_at := Some now,
                                                          doc_title := Some (gdoc_title driveDoc),
                                                          doc_updated_at := now\<rparr>
                                                   else d) (documents db)\<rparr>
                          in case logSync userId (Some documentId) ''single_sync'' ''success''
                                    (ResultDetails result) db1 of
                               Inl le \<Rightarrow> sync_catch le userId documentId db1
                             | Inr db2 \<Rightarrow> (Inr result, db2)))))"

subsection \<open>What one reconciliation pass does to a row\<close>

text \<open>
  The row an \<open>UPDATE\<close> of the loop leaves for a segment whose identifier has a range:
  the range's offsets and the text the range cuts out of the document.
\<close>

definition synced_row :: "int \<Rightarrow> string \<Rightarrow> (string \<rightharpoonup> cmms_range) \<Rightarrow> segment \<Rightarrow> segment" where
  "synced_row now fullText ranges row =
     (case ranges (seg_id row) of
        None \<Rightarrow> row
      | Some r \<Rightarrow> row\<lparr>start_offset := rstart r, end_offset := rend r,
                      text_content := substring fullText (rstart r) (rend r),
                      seg_updated_at := now\<rparr>)"

definition textChanged :: "string \<Rightarrow> (string \<rightharpoonup> cmms_range) \<Rightarrow> segment \<Rightarrow> bool" where
  "textChanged fullText ranges sg =
     (case ranges (seg_id sg) of
        None \<Rightarrow> False
      | Some r \<Rightarrow> substring fullText (rstart r) (rend r) \<noteq> text_content sg)"

definition posChanged :: "(string \<rightharpoonup> cmms_range) \<Rightarrow> segment \<Rightarrow> bool" where
  "posChanged ranges sg =
     (case ranges (seg_id sg) of
        None \<Rightarrow> False
      | Some r \<Rightarrow> rstart r \<noteq> start_offset sg \<or> rend r \<noteq> end_offset sg)"

definition changed_ids :: "string \<Rightarrow> (string \<rightharpoonup> cmms_range) \<Rightarrow> segment list \<Rightarrow> string set" where
  "changed_ids ft rg xs = seg_id ` {x \<in> set xs. textChanged ft rg x \<or> posChanged rg x}"

definition orphan_of :: "segment \<Rightarrow> orphan" where
  "orphan_of sg =
     \<lparr>orphan_id = seg_id sg, orphan_title = seg_title sg, last_text = text_content sg\<rparr>"

definition missing_conflict :: "segment \<Rightarrow> conflict" where
  "missing_conflict sg =
     \<lparr>segment_id = seg_id sg, ctype = marker_missing,
      details = ''Named range not found in Google Doc''\<rparr>"

text \<open>
  A segment of the snapshot whose \<open>UPDATE\<close> the database rejects: its range differs from
  the row and has an offset that is no \<open>INTEGER\<close>. The sync of a fetched document commits
  when no segment of the snapshot is rejected and the title fits \<open>VARCHAR(500)\<close>.
\<close>

definition rejected :: "string \<Rightarrow> (string \<rightharpoonup> cmms_range) \<Rightarrow> segment \<Rightarrow> bool" where
  "rejected fullText ranges sg =
     (case ranges (seg_id sg) of
        None \<Rightarrow> False
      | Some r \<Rightarrow> (textChanged fullText ranges sg \<or> posChanged ranges sg)
                   \<and> \<not> (int4 (rstart r) \<and> int4 (rend r)))"

definition storable :: "drive_doc \<Rightarrow> string \<Rightarrow> database \<Rightarrow> bool" where
  "storable driveDoc documentId db =
     (\<not> list_ex (rejected (body_text driveDoc) (getCmmsNamedRanges driveDoc))
          (filter (\<lambda>s. seg_document_id s = documentId) (segments db))
      \<and> length (gdoc_title driveDoc) \<le> 500)"

text \<open>The error of the statement the database rejects first, when the sync does not commit.\<close>

definition sync_rejection :: "drive_doc \<Rightarrow> string \<Rightarrow> database \<Rightarrow> js_error" where
  "sync_rejection driveDoc documentId db =
     (if list_ex (rejected (body_text driveDoc) (getCmmsNamedRanges driveDoc))
           (filter (\<lambda>s. seg_document_id s = documentId) (segments db))
      then pg_error ''value is out of range for type integer''
      else pg_error ''value too long for type character varying(500)'')"

text \<open>
  What the loop leaves when no \<open>UPDATE\<close> is rejected: the result, counted over the
  snapshot, and the table, where the rows of the changed segments carry their range.
\<close>

definition sync_result :: "string \<Rightarrow> (string \<rightharpoonup> cmms_range) \<Rightarrow> segment list \<Rightarrow> SyncResult" where
  "sync_result fullText ranges snapshot =
     \<lparr>status = Success,
      updated_segments = length (filter (textChanged fullText ranges) snapshot),
      repositioned_segments =
        length (filter (\<lambda>x. posChanged ranges x \<and> \<not> textChanged fullText ranges x) snapshot),
      orphaned_segments = map orphan_of (filter (\<lambda>x. ranges (seg_id x) = None) snapshot),
      conflicts = map missing_conflict (filter (\<lambda>x. ranges (seg_id x) = None) snapshot)\<rparr>"

definition synced_table ::
  "int \<Rightarrow> string \<Rightarrow> (string \<rightharpoonup> cmms_range) \<Rightarrow> segment list \<Rightarrow> segment list \<Rightarrow> segment list" where
  "synced_table now fullText ranges snapshot tbl =
     map (\<lambda>row. if seg_id row \<in> changed_ids fullText ranges snapshot
                 then synced_row now fullText ranges row else row) tbl"

text \<open>The row \<open>logSync\<close> appends.\<close>

definition log_row :: "string \<Rightarrow> string option \<Rightarrow> string \<Rightarrow> string \<Rightarrow> log_details \<Rightarrow> sync_log_row" where
  "log_row userId docId action st det =
     \<lparr>log_user_id = userId, log_document_id = docId, log_action = action,
      log_status = st, log_details = det\<rparr>"

subsection \<open>A small database and document for concrete runs\<close>

definition ex_document :: document where
  "ex_document =
     \<lparr>doc_id = ''d1'', doc_user_id = ''u1'', google_file_id = ''g1'',
      doc_title = Some ''Set list'', google_folder_id = None, mime_type = None,
      last_synced_at = None, last_modified_at = None, is_active = True,
      doc_updated_at = 0\<rparr>"

definition ex_segment :: "string \<Rightarrow> int \<Rightarrow> int \<Rightarrow> string \<Rightarrow> segment" where
  "ex_segment sid s e txt =
     \<lparr>seg_id = sid, seg_user_id = ''u1'', seg_document_id = ''d1'', seg_category_id = ''c1'',
      start_offset = s, end_offset = e, text_content = txt, seg_title = None,
      color = ''#E57373'', is_primary = True, seg_created_at = 0, seg_updated_at = 0\<rparr>"

definition ex_db :: database where
  "ex_db =
     \<lparr>users = [\<lparr>user_id = ''u1'', watched_folder_id = Some ''f1''\<rparr>],
      user_preferences = [], categories = [''c1''], tags = [''t1'', ''t2''],
      documents = [ex_document],
      segments = [ex_segment ''s1'' 0 5 ''hello'', ex_segment ''s2'' 6 11 ''world''],
      segment_tags = [], color_usage = [], sync_log = [], uuid_counter = 0\<rparr>"

definition ex_drive_doc :: "(string \<times> gdoc_range list list) list \<Rightarrow> drive_doc" where
  "ex_drive_doc nr = \<lparr>gdoc_title = ''Set list'', body_text = ''hello world'', namedRanges = nr\<rparr>"

text \<open>The provider holds the document with a marker for \<open>s1\<close> only.\<close>

definition ex_get_s1 :: "string \<Rightarrow> js_error + drive_doc" where
  "ex_get_s1 g =
     Inr (ex_drive_doc
       [(''cmms_segment_s1'', [[\<lparr>startIndex = Some 0, endIndex = Some 5\<rparr>]])])"

text \<open>The provider holds the document, the marker of \<open>s1\<close> collapsed to an empty range.\<close>

definition ex_get_collapsed :: "string \<Rightarrow> js_error + drive_doc" where
  "ex_get_collapsed g =
     Inr (ex_drive_doc
       [(''cmms_segment_s1'', [[\<lparr>startIndex = Some 3, endIndex = Some 3\<rparr>]]),
        (''cmms_segment_s2'', [[\<lparr>startIndex = Some 6, endIndex = Some 11\<rparr>]])])"

text \<open>The provider answers 404 for every file.\<close>

definition ex_get_gone :: "string \<Rightarrow> js_error + drive_doc" where
  "ex_get_gone g = Inl \<lparr>statusCode = None, code = Some 404, message = ''File not found''\<rparr>"

section \<open>Search and facets (services/search.ts)\<close>

text \<open>
  The filters of a search request. The declaration (\<open>types/search.ts\<close>) is not among the
  source files; the fields are those \<open>searchSegments\<close> reads, with the types
  \<open>searchSchema\<close> gives them. A date of the range is the timestamp it denotes.
\<close>

text \<open>
  The text of the query, whose characters \<open>trim\<close> looks at one by one, is the list of the
  UTF-16 code units of the JavaScript string.
\<close>

type_synonym code_units = "int list"

datatype tag_logic = LogicAND | LogicOR

record date_range =
  dr_start :: "int option"
  dr_end :: "int option"

record SearchFilters =
  category_ids :: "string list option"
  tag_ids :: "string list option"
  tag_logic :: "tag_logic option"
  document_ids :: "string list option"
  date_range :: "date_range option"
  filter_is_primary :: "bool option"

text \<open>The parameter \<open>excludeFacet\<close>: \<open>'none'\<close>, \<open>'category'\<close> or \<open>'tags'\<close>.\<close>

datatype facet = NoFacet | CategoryFacet | TagsFacet

text \<open>
  A condition of a \<open>WHERE\<close> clause, its placeholder replaced by the value the code binds
  to it:
  \<^item> \<open>UserIdEq u\<close> is \<open>s.user_id = $1\<close>;
  \<^item> \<open>TextMatch q\<close> is \<open>s.text_content_tsvector @@ websearch_to_tsquery('english', $n)\<close>;
  \<^item> \<open>CategoryAny ids\<close> is \<open>s.category_id = ANY($n::uuid[])\<close>, and \<open>DocumentAny\<close> the
    same for \<open>s.document_id\<close>;
  \<^item> \<open>IsPrimaryEq b\<close> is \<open>s.is_primary = $n\<close>;
  \<^item> \<open>CreatedGe t\<close> and \<open>CreatedLe t\<close> are \<open>s.created_at >= $n\<close> and \<open>s.created_at <= $n\<close>;
  \<^item> \<open>TagExists ids\<close> is \<open>EXISTS (SELECT 1 FROM segment_tags st WHERE st.segment_id = s.id
    AND st.tag_id = ANY($n))\<close>;
  \<^item> \<open>TagCountEq ids k\<close> is \<open>(SELECT COUNT(DISTINCT st.tag_id) FROM segment_tags st WHERE
    st.segment_id = s.id AND st.tag_id = ANY($n)) = k\<close>.
\<close>

datatype condition =
  UserIdEq string
  | TextMatch code_units
  | CategoryAny "string list"
  | DocumentAny "string list"
  | IsPrimaryEq bool
  | CreatedGe int
  | CreatedLe int
  | TagExists "string list"
  | TagCountEq "string list" nat

text \<open>The tags of the junction table that a segment carries from a list of tags.\<close>

definition carried_tags :: "(string \<times> string) list \<Rightarrow> string list \<Rightarrow> segment \<Rightarrow> string list" where
  "carried_tags st ids s =
     map snd (filter (\<lambda>row. fst row = seg_id s \<and> snd row \<in> set ids) st)"

text \<open>
  What a condition says of a row. \<open>ts\<close> is the full-text match of a query against the
  search vector of a row, \<open>st\<close> the table \<open>segment_tags\<close>.
\<close>

fun holds :: "(code_units \<Rightarrow> segment \<Rightarrow> bool) \<Rightarrow> (string \<times> string) list \<Rightarrow> segment \<Rightarrow> condition \<Rightarrow> bool" where
  "holds ts st s (UserIdEq u) = (seg_user_id s = u)"
| "holds ts st s (TextMatch q) = ts q s"
| "holds ts st s (CategoryAny ids) = (seg_category_id s \<in> set ids)"
| "holds ts st s (DocumentAny ids) = (seg_document_id s \<in> set ids)"
| "holds ts st s (IsPrimaryEq b) = (is_primary s = b)"
| "holds ts st s (CreatedGe t) = (seg_created_at s \<ge> t)"
| "holds ts st s (CreatedLe t) = (seg_created_at s \<le> t)"
| "holds ts st s (TagExists ids) = (carried_tags st ids s \<noteq> [])"
| "holds ts st s (TagCountEq ids k) = (length (remdups (carried_tags st ids s)) = k)"

text \<open>\<open>conditions.join(' AND ')\<close> as a \<open>WHERE\<close> clause.\<close>

definition where_holds ::
  "(code_units \<Rightarrow> segment \<Rightarrow> bool) \<Rightarrow> (string \<times> string) list \<Rightarrow> condition list \<Rightarrow> segment \<Rightarrow> bool" where
  "where_holds ts st conds s = list_all (holds ts st s) conds"

text \<open>
  \<open>tsQueryParamIndex > 0\<close>, that is \<open>query && query.trim() !== ''\<close>: the query has a
  code unit that \<open>trim\<close> does not strip. \<open>trim\<close> strips the white space and the line
  terminators of ECMAScript: tab, line feed, vertical tab, form feed, carriage return,
  space, no-break space, U+1680, U+2000 to U+200A, U+2028, U+2029, U+202F, U+205F,
  U+3000 and U+FEFF.
\<close>

definition is_whitespace :: "int \<Rightarrow> bool" where
  "is_whitespace c =
     (c \<in> set [0x09, 0x0A, 0x0B, 0x0C, 0x0D, 0x20, 0xA0, 0x1680,
                0x2000, 0x2001, 0x2002, 0x2003, 0x2004, 0x2005, 0x2006, 0x2007, 0x2008,
                0x2009, 0x200A, 0x2028, 0x2029, 0x202F, 0x205F, 0x3000, 0xFEFF])"

definition has_query :: "code_units \<Rightarrow> bool" where
  "has_query query = (filter (\<lambda>c. \<not> is_whitespace c) query \<noteq> [])"

text \<open>\<open>xs?.length\<close> as a test: the array is there and is not empty.\<close>

definition given :: "'a list option \<Rightarrow> 'a list" where
  "given xs = (case xs of None \<Rightarrow> [] | Some ys \<Rightarrow> ys)"

definition getBaseConditions :: "string \<Rightarrow> code_units \<Rightarrow> SearchFilters \<Rightarrow> facet \<Rightarrow> condition list" where
  "getBaseConditions userId query filters excludeFacet =
     [UserIdEq userId]
     @ (if has_query query then [TextMatch query] else [])
     @ (if given (category_ids filters) \<noteq> [] \<and> excludeFacet \<noteq> CategoryFacet
        then [CategoryAny (given (category_ids filters))] else [])
     @ (if given (document_ids filters) \<noteq> []
        then [DocumentAny (given (document_ids filters))] else [])
     @ (case filter_is_primary filters of None \<Rightarrow> [] | Some b \<Rightarrow> [IsPrimaryEq b])
     @ (case date_range filters of
          None \<Rightarrow> []
        | Some dr \<Rightarrow>
            (case dr_start dr of None \<Rightarrow> [] | Some t \<Rightarrow> [CreatedGe t])
            @ (case dr_end dr of None \<Rightarrow> [] | Some t \<Rightarrow> [CreatedLe t]))
     @ (if given (tag_ids filters) \<noteq> [] \<and> excludeFacet \<noteq> TagsFacet
        then (if tag_logic filters = Some LogicOR
              then [TagExists (given (tag_ids filters))]
              else [TagCountEq (given (tag_ids filters)) (length (given (tag_ids filters)))])
        else [])"

definition generateFacetWhere :: "string \<Rightarrow> code_units \<Rightarrow> SearchFilters \<Rightarrow> facet \<Rightarrow> condition list" where
  "generateFacetWhere userId query filters exclude =
     [UserIdEq userId]
     @ (if has_query query then [TextMatch query] else [])
     @ (if given (document_ids filters) \<noteq> []
        then [DocumentAny (given (document_ids filters))] else [])
     @ (case filter_is_primary filters of None \<Rightarrow> [] | Some b \<Rightarrow> [IsPrimaryEq b])
     @ (if exclude \<noteq> CategoryFacet \<and> given (category_ids filters) \<noteq> []
        then [CategoryAny (given (category_ids filters))] else [])
     @ (if exclude \<noteq> TagsFacet \<and> given (tag_ids filters) \<noteq> []
        then [TagExists (given (tag_ids filters))] else [])"

text \<open>
  The count the category facet query gives a category, and the count the tag facet
  query gives a tag (one joined row per segment and tag row), before \<open>ORDER BY\<close> and
  \<open>LIMIT 20\<close>.
\<close>

definition catFacetCount ::
  "(code_units \<Rightarrow> segment \<Rightarrow> bool) \<Rightarrow> database \<Rightarrow> string \<Rightarrow> code_units \<Rightarrow> SearchFilters \<Rightarrow> string \<Rightarrow> nat" where
  "catFacetCount ts db userId query filters cid =
     length (filter (\<lambda>s. seg_category_id s = cid
                       \<and> where_holds ts (segment_tags db)
                            (generateFacetWhere userId query filters CategoryFacet) s)
               (segments db))"

definition tagFacetCount ::
  "(code_units \<Rightarrow> segment \<Rightarrow> bool) \<Rightarrow> database \<Rightarrow> string \<Rightarrow> code_units \<Rightarrow> SearchFilters \<Rightarrow> string \<Rightarrow> nat" where
  "tagFacetCount ts db userId query filters tid =
     length (filter (\<lambda>(s, row). fst row = seg_id s \<and> snd row = tid
                       \<and> where_holds ts (segment_tags db)
                            (generateFacetWhere userId query filters TagsFacet) s)
               (List.product (segments db) (segment_tags db)))"

text \<open>The number \<open>COUNT(DISTINCT s.id)\<close> of the count query, over the main clause.\<close>

definition search_total ::
  "(code_units \<Rightarrow> segment \<Rightarrow> bool) \<Rightarrow> database \<Rightarrow> string \<Rightarrow> code_units \<Rightarrow> SearchFilters \<Rightarrow> nat" where
  "search_total ts db userId query filters =
     length (remdups (map seg_id
       (filter (where_holds ts (segment_tags db) (getBaseConditions userId query filters NoFacet))
          (segments db))))"

subsection \<open>Filters and rows for concrete searches\<close>

definition no_filters :: SearchFilters where
  "no_filters =
     \<lparr>category_ids = None, tag_ids = None, tag_logic = None, document_ids = None,
      date_range = None, filter_is_primary = None\<rparr>"

text \<open>A table with one segment of category \<open>c1\<close>, created at time 50 and tagged \<open>t1\<close>.\<close>

definition search_db :: database where
  "search_db =
     ex_db\<lparr>segments := [(ex_segment ''s1'' 0 5 ''hello'')\<lparr>seg_created_at := 50\<rparr>],
           segment_tags := [(''s1'', ''t1'')]\<rparr>"

text \<open>A full-text match that accepts every row.\<close>

definition ts_any :: "code_units \<Rightarrow> segment \<Rightarrow> bool" where
  "ts_any q s = True"

section \<open>Colour assignment (services/color.ts)\<close>

text \<open>
  The server: the database, and the module-level array \<open>DEFAULT_PALETTE\<close> of
  \<open>color.ts\<close>, which \<open>Array.prototype.sort\<close> reorders in place when the palette in use
  is that array.
\<close>

record server =
  srv_db :: database
  DEFAULT_PALETTE :: "string list"

definition DEFAULT_PALETTE_initial :: "string list" where
  "DEFAULT_PALETTE_initial =
     [''#E57373'', ''#81C784'', ''#64B5F6'', ''#FFD54F'', ''#BA68C8'',
      ''#4DB6AC'', ''#FF8A65'', ''#A1887F'', ''#90A4AE'', ''#F06292'']"

text \<open>
  Step 1 of \<open>assignColor\<close>: the palette in use, and whether it is the array
  \<open>DEFAULT_PALETTE\<close> itself (no preferences row, a null or non-array \<open>color_palette\<close>)
  rather than the array parsed from the row.
\<close>

definition user_palette :: "server \<Rightarrow> string \<Rightarrow> string list option" where
  "user_palette srv userId =
     (case filter (\<lambda>r. pref_user_id r = userId) (user_preferences (srv_db srv)) of
        [] \<Rightarrow> None
      | r # _ \<Rightarrow>
          (case color_palette r of
             Some (PaletteArray p) \<Rightarrow> Some p
           | _ \<Rightarrow> None))"

definition load_palette :: "server \<Rightarrow> string \<Rightarrow> string list" where
  "load_palette srv userId =
     (case user_palette srv userId of None \<Rightarrow> DEFAULT_PALETTE srv | Some p \<Rightarrow> p)"

text \<open>Step 2: the colours of the user's segments in the document.\<close>

definition usedInDoc :: "database \<Rightarrow> string \<Rightarrow> string \<Rightarrow> string set" where
  "usedInDoc d userId documentId =
     color ` {s \<in> set (segments d). seg_document_id s = documentId \<and> seg_user_id s = userId}"

text \<open>Step 4: \<open>usageMap.get(c)\<close>; a later row of the result replaces an earlier one.\<close>

definition usageMap :: "database \<Rightarrow> string \<Rightarrow> string \<Rightarrow> color_usage_row option" where
  "usageMap d userId c =
     (case filter (\<lambda>r. cu_user_id r = userId \<and> cu_color r = c) (color_usage d) of
        [] \<Rightarrow> None
      | r # rs \<Rightarrow> Some (last (r # rs)))"

definition lastUsed_time :: "database \<Rightarrow> string \<Rightarrow> string \<Rightarrow> int" where
  "lastUsed_time d userId c =
     (case usageMap d userId c of None \<Rightarrow> 0 | Some r \<Rightarrow> last_used_at r)"

definition global_count :: "database \<Rightarrow> string \<Rightarrow> string \<Rightarrow> int" where
  "global_count d userId c =
     (case usageMap d userId c of None \<Rightarrow> 0 | Some r \<Rightarrow> usage_count r)"

text \<open>\<open>xs[0]\<close>: the first element, or \<open>undefined\<close>.\<close>

definition first_elem :: "'a list \<Rightarrow> 'a option" where
  "first_elem xs = (case xs of [] \<Rightarrow> None | x # _ \<Rightarrow> Some x)"

text \<open>
  \<open>assignColor\<close>: the selected colour (\<open>None\<close> for \<open>undefined\<close>) and the server, whose
  \<open>DEFAULT_PALETTE\<close> strategy 2 leaves sorted when it is the palette in use.
  \<open>Array.prototype.sort\<close> with a comparator \<open>key(a) - key(b)\<close> is a stable sort by the
  key, which \<open>sort_key\<close> is.
\<close>

definition assignColor :: "server \<Rightarrow> string \<Rightarrow> string \<Rightarrow> string option \<times> server" where
  "assignColor srv userId documentId =
     (let palette = load_palette srv userId;
          available = filter (\<lambda>c. c \<notin> usedInDoc (srv_db srv) userId documentId) palette
      in if available \<noteq> [] then
           (first_elem (sort_key (lastUsed_time (srv_db srv) userId) available), srv)
         else
           (let sorted = sort_key (global_count (srv_db srv) userId) palette
            in (first_elem sorted,
                (case user_palette srv userId of
                   None \<Rightarrow> srv\<lparr>DEFAULT_PALETTE := sorted\<rparr>
                 | Some p \<Rightarrow> srv))))"

text \<open>\<open>recordColorUsage\<close>: the upsert on \<open>(user_id, color)\<close>.\<close>

definition recordColorUsage :: "int \<Rightarrow> string \<Rightarrow> string \<Rightarrow> database \<Rightarrow> database" where
  "recordColorUsage now userId c d =
     (if list_ex (\<lambda>r. cu_user_id r = userId \<and> cu_color r = c) (color_usage d)
      then d\<lparr>color_usage :=
               map (\<lambda>r. if cu_user_id r = userId \<and> cu_color r = c
                         then r\<lparr>last_used_at := now, usage_count := usage_count r + 1\<rparr>
                         else r) (color_usage d)\<rparr>
      else d\<lparr>color_usage := color_usage d @
               [\<lparr>cu_user_id = userId, cu_color = c, last_used_at = now, usage_count = 1\<rparr>]\<rparr>)"

section \<open>Creating a segment (services/segments.ts)\<close>

text \<open>
  The request of \<open>createSegment\<close>. The declaration (\<open>types/segments.ts\<close>) is not among the
  source files; the fields are those \<open>createSegment\<close> reads, with the types
  \<open>createSegmentSchema\<close> gives them.
\<close>

record CreateSegmentDTO =
  dto_document_id :: string
  dto_category_id :: string
  dto_start_offset :: int
  dto_end_offset :: int
  dto_text_content :: string
  dto_title :: "string option"
  dto_tag_ids :: "string list option"
  dto_color :: "string option"

text \<open>\<open>getSegmentById\<close>, without the joined display columns.\<close>

definition getSegmentById :: "database \<Rightarrow> string \<Rightarrow> string \<Rightarrow> segment option" where
  "getSegmentById d userId sid =
     first_elem (filter (\<lambda>s. seg_id s = sid \<and> seg_user_id s = userId) (segments d))"

text \<open>
  \<open>INSERT INTO segments ... RETURNING *\<close> with the constraints of the schema: the
  offsets are of type \<open>INTEGER\<close>, the generated primary key is new, the colour is not
  null and fits \<open>VARCHAR(7)\<close>, the title fits \<open>VARCHAR(255)\<close>, and user, document and
  category exist. \<open>uuid\<close> is the sequence of values \<open>gen_random_uuid()\<close> gives.
\<close>

definition insert_segment ::
  "(nat \<Rightarrow> string) \<Rightarrow> int \<Rightarrow> string \<Rightarrow> CreateSegmentDTO \<Rightarrow> string \<Rightarrow> string option
     \<Rightarrow> database \<Rightarrow> js_error + segment \<times> database" where
  "insert_segment uuid now userId dto title col d =
     (let new_id = uuid (uuid_counter d);
          d1 = d\<lparr>uuid_counter := Suc (uuid_counter d)\<rparr>
      in if \<not> (int4 (dto_start_offset dto) \<and> int4 (dto_end_offset dto))
           then Inl (pg_error ''value is out of range for type integer'')
         else case col of
           None \<Rightarrow> Inl (pg_error ''null value in column color violates not-null constraint'')
         | Some c \<Rightarrow>
             if length c > 7 then Inl (pg_error ''value too long for type character varying(7)'')
             else if length title > 255
               then Inl (pg_error ''value too long for type character varying(255)'')
             else if new_id \<in> seg_id ` set (segments d)
               then Inl (pg_error ''duplicate key value violates unique constraint'')
             else if userId \<notin> user_id ` set (users d)
                     \<or> dto_document_id dto \<notin> doc_id ` set (documents d)
                     \<or> dto_category_id dto \<notin> set (categories d)
               then Inl (pg_error ''insert violates foreign key constraint'')
             else
               (let row = \<lparr>seg_id = new_id, seg_user_id = userId,
                           seg_document_id = dto_document_id dto,
                           seg_category_id = dto_category_id dto,
                           start_offset = dto_start_offset dto,
                           end_offset = dto_end_offset dto,
                           text_content = dto_text_content dto,
                           seg_title = Some title, color = c, is_primary = True,
                           seg_created_at = now, seg_updated_at = now\<rparr>
                in Inr (row, d1\<lparr>segments := segments d1 @ [row]\<rparr>)))"

text \<open>
  \<open>INSERT INTO segment_tags (segment_id, tag_id) VALUES ...\<close>, one statement: every tag
  exists and no pair is repeated or already there, or no row is inserted.
\<close>

definition insert_segment_tags :: "string \<Rightarrow> string list \<Rightarrow> database \<Rightarrow> js_error + database" where
  "insert_segment_tags sid tagIds d =
     (if \<not> list_all (\<lambda>t. t \<in> set (tags d)) tagIds
        then Inl (pg_error ''insert violates foreign key constraint'')
      else if \<not> distinct tagIds \<or> list_ex (\<lambda>t. (sid, t) \<in> set (segment_tags d)) tagIds
        then Inl (pg_error ''duplicate key value violates unique constraint'')
      else Inr (d\<lparr>segment_tags := segment_tags d @ map (\<lambda>t. (sid, t)) tagIds\<rparr>))"

text \<open>
  \<open>createSegment\<close>. Every statement goes through \<open>db.query\<close> on the pool, so each is
  committed when it returns. The error of a rejected statement is thrown with the
  database as the earlier statements left it.
\<close>

definition createSegment ::
  "(nat \<Rightarrow> string) \<Rightarrow> server \<Rightarrow> int \<Rightarrow> string \<Rightarrow> CreateSegmentDTO
     \<Rightarrow> (js_error + segment option) \<times> server" where
  "createSegment uuid srv now userId dto =
     (let (col, srv1) =
            (case dto_color dto of
               None \<Rightarrow> assignColor srv userId (dto_document_id dto)
             | Some c \<Rightarrow> if c \<noteq> [] then (Some c, srv)
                         else assignColor srv userId (dto_document_id dto));
          title = (case dto_title dto of
                     None \<Rightarrow> substring (dto_text_content dto) 0 50
                   | Some t \<Rightarrow> if t \<noteq> [] then t else substring (dto_text_content dto) 0 50)
      in case insert_segment uuid now userId dto title col (srv_db srv1) of
           Inl e \<Rightarrow> (Inl e, srv1)
         | Inr (sg, d1) \<Rightarrow>
             (let d2 = recordColorUsage now userId (color sg) d1
              in if given (dto_tag_ids dto) \<noteq> [] then
                   (case insert_segment_tags (seg_id sg) (given (dto_tag_ids dto)) d2 of
                      Inl e \<Rightarrow> (Inl e, srv1\<lparr>srv_db := d2\<rparr>)
                    | Inr d3 \<Rightarrow> (Inr (getSegmentById d3 userId (seg_id sg)), srv1\<lparr>srv_db := d3\<rparr>))
                 else (Inr (getSegmentById d2 userId (seg_id sg)), srv1\<lparr>srv_db := d2\<rparr>)))"

text \<open>
  A run of \<open>createSegment\<close> calls by one user, one after the other, each with its time
  and request: the outcomes in order, and the server after the last.
\<close>

fun createSegments ::
  "(nat \<Rightarrow> string) \<Rightarrow> server \<Rightarrow> string \<Rightarrow> (int \<times> CreateSegmentDTO) list
     \<Rightarrow> (js_error + segment option) list \<times> server" where
  "createSegments uuid srv userId [] = ([], srv)"
| "createSegments uuid srv userId ((now, dto) # rest) =
     (case createSegment uuid srv now userId dto of
        (r, srv1) \<Rightarrow>
          (case createSegments uuid srv1 userId rest of
             (rs, srv2) \<Rightarrow> (r # rs, srv2)))"

subsection \<open>Requests and a server for concrete runs\<close>

definition ex_dto :: "string list option \<Rightarrow> CreateSegmentDTO" where
  "ex_dto tagIds =
     \<lparr>dto_document_id = ''d1'', dto_category_id = ''c1'', dto_start_offset = 12,
      dto_end_offset = 17, dto_text_content = ''again'', dto_title = None,
      dto_tag_ids = tagIds, dto_color = None\<rparr>"

definition ex_uuid :: "nat \<Rightarrow> string" where
  "ex_uuid n = ''new'' @ replicate n (CHR ''x'')"

definition ex_server :: server where
  "ex_server = \<lparr>srv_db = ex_db, DEFAULT_PALETTE = DEFAULT_PALETTE_initial\<rparr>"

text \<open>
  A server where user \<open>u1\<close> has a palette of two colours, given the segments, the colour
  usage rows and the number of identifiers drawn; three requests without a colour; and
  the segment a request creates, given its identifier, colour and time.
\<close>

definition two_color_state :: "segment list \<Rightarrow> color_usage_row list \<Rightarrow> nat \<Rightarrow> server" where
  "two_color_state segs usage n =
     \<lparr>srv_db = ex_db\<lparr>segments := segs,
                       user_preferences :=
                         [\<lparr>pref_user_id = ''u1'',
                           color_palette = Some (PaletteArray [''#111111'', ''#222222''])\<rparr>],
                       color_usage := usage,
                       uuid_counter := n\<rparr>,
      DEFAULT_PALETTE = DEFAULT_PALETTE_initial\<rparr>"

definition usage_row :: "string \<Rightarrow> int \<Rightarrow> int \<Rightarrow> color_usage_row" where
  "usage_row c t n = \<lparr>cu_user_id = ''u1'', cu_color = c, last_used_at = t, usage_count = n\<rparr>"

definition two_color_server :: server where
  "two_color_server = two_color_state [] [usage_row ''#111111'' 3 4] 0"

definition three_requests :: "(int \<times> CreateSegmentDTO) list" where
  "three_requests = [(10, ex_dto None), (11, ex_dto None), (12, ex_dto None)]"

definition created_segment :: "string \<Rightarrow> string \<Rightarrow> int \<Rightarrow> segment" where
  "created_segment sid c now =
     \<lparr>seg_id = sid, seg_user_id = ''u1'', seg_document_id = ''d1'', seg_category_id = ''c1'',
      start_offset = 12, end_offset = 17, text_content = ''again'',
      seg_title = Some ''again'', color = c, is_primary = True,
      seg_created_at = now, seg_updated_at = now\<rparr>"

definition three_created :: "segment list" where
  "three_created =
     [created_segment ''new'' ''#222222'' 10,
      created_segment ''newx'' ''#111111'' 11,
      created_segment ''newxx'' ''#222222'' 12]"

subsection \<open>Two users without a stored palette on one server\<close>

text \<open>
  The segment a request without a colour creates in a document, given its identifier,
  owner, document, colour and time; the request; and a row of \<open>color_usage\<close>.
\<close>

definition auto_segment :: "string \<Rightarrow> string \<Rightarrow> string \<Rightarrow> string \<Rightarrow> int \<Rightarrow> segment" where
  "auto_segment sid u d c now =
     \<lparr>seg_id = sid, seg_user_id = u, seg_document_id = d, seg_category_id = ''c1'',
      start_offset = 12, end_offset = 17, text_content = ''again'',
      seg_title = Some ''again'', color = c, is_primary = True,
      seg_created_at = now, seg_updated_at = now\<rparr>"

definition auto_dto :: "string \<Rightarrow> CreateSegmentDTO" where
  "auto_dto d =
     \<lparr>dto_document_id = d, dto_category_id = ''c1'', dto_start_offset = 12,
      dto_end_offset = 17, dto_text_content = ''again'', dto_title = None,
      dto_tag_ids = None, dto_color = None\<rparr>"

definition usage_of :: "string \<Rightarrow> string \<Rightarrow> int \<Rightarrow> int \<Rightarrow> color_usage_row" where
  "usage_of u c t n = \<lparr>cu_user_id = u, cu_color = c, last_used_at = t, usage_count = n\<rparr>"

text \<open>
  A server on which the users \<open>u1\<close> and \<open>u2\<close> have no preferences row, after \<open>k\<close>
  creations of \<open>u1\<close> in document \<open>d1\<close> at the times 1, 2 and so on, up to eleven: the
  \<open>j\<close>-th segment has the colour \<open>DEFAULT_PALETTE_initial ! (j mod 10)\<close>, and the array
  \<open>DEFAULT_PALETTE\<close> is as the module declares it. Before the first creation no document
  holds a segment.
\<close>

definition first_user_segment :: "nat \<Rightarrow> segment" where
  "first_user_segment j =
     auto_segment (ex_uuid j) ''u1'' ''d1'' (DEFAULT_PALETTE_initial ! (j mod 10)) (1 + int j)"

definition first_user_usage :: "nat \<Rightarrow> color_usage_row list" where
  "first_user_usage k =
     map (\<lambda>j. if j = 0 \<and> 10 < k then usage_of ''u1'' (DEFAULT_PALETTE_initial ! j) 11 2
               else usage_of ''u1'' (DEFAULT_PALETTE_initial ! j) (1 + int j) 1) [0..<min k 10]"

definition first_user_state :: "nat \<Rightarrow> server" where
  "first_user_state k =
     \<lparr>srv_db =
        \<lparr>users = [\<lparr>user_id = ''u1'', watched_folder_id = None\<rparr>,
                  \<lparr>user_id = ''u2'', watched_folder_id = None\<rparr>],
         user_preferences = [], categories = [''c1''], tags = [],
         documents = [ex_document, ex_document\<lparr>doc_id := ''d2'', doc_user_id := ''u2'',
                                                google_file_id := ''g2''\<rparr>],
         segments = map first_user_segment [0..<k],
         segment_tags = [],
         color_usage = first_user_usage k,
         sync_log = [], uuid_counter = k\<rparr>,
      DEFAULT_PALETTE = DEFAULT_PALETTE_initial\<rparr>"

definition first_user_requests :: "(int \<times> CreateSegmentDTO) list" where
  "first_user_requests = map (\<lambda>j. (1 + int j, auto_dto ''d1'')) [0..<11]"

text \<open>
  The server after the eleven creations of \<open>u1\<close>: document \<open>d1\<close> holds one segment of each
  colour of the default palette and a second of the first colour, and document \<open>d2\<close> of
  \<open>u2\<close> holds no segment.
\<close>

definition shared_server :: server where
  "shared_server = first_user_state 11"

text \<open>The default palette as the twelfth creation of \<open>u1\<close> in \<open>d1\<close> leaves the array.\<close>

definition sorted_palette :: "string list" where
  "sorted_palette =
     [''#81C784'', ''#64B5F6'', ''#FFD54F'', ''#BA68C8'', ''#4DB6AC'',
      ''#FF8A65'', ''#A1887F'', ''#90A4AE'', ''#F06292'', ''#E57373'']"

text \<open>
  The server after that twelfth creation, at time 12, and then \<open>k\<close> creations of \<open>u2\<close> in
  \<open>d2\<close> at the times 21, 22 and so on, when the array \<open>DEFAULT_PALETTE\<close> holds \<open>pal\<close>: the
  \<open>j\<close>-th segment of \<open>u2\<close> has the colour \<open>pal ! (j mod 10)\<close>.
\<close>

definition shared_segment :: "string list \<Rightarrow> nat \<Rightarrow> segment" where
  "shared_segment pal j =
     auto_segment (ex_uuid (12 + j)) ''u2'' ''d2'' (pal ! (j mod 10)) (21 + int j)"

definition shared_state :: "string list \<Rightarrow> nat \<Rightarrow> server" where
  "shared_state pal k =
     \<lparr>srv_db = (srv_db shared_server)
        \<lparr>segments := segments (srv_db shared_server)
                       @ [auto_segment (ex_uuid 11) ''u1'' ''d1'' ''#81C784'' 12]
                       @ map (shared_segment pal) [0..<k],
         color_usage :=
           usage_of ''u1'' ''#E57373'' 11 2 # usage_of ''u1'' ''#81C784'' 12 2
           # map (\<lambda>j. usage_of ''u1'' (DEFAULT_PALETTE_initial ! j) (1 + int j) 1) [2..<10]
           @ map (\<lambda>j. if j = 0 \<and> 10 < k then usage_of ''u2'' (pal ! j) 31 2
                       else usage_of ''u2'' (pal ! j) (21 + int j) 1) [0..<min k 10],
         uuid_counter := 12 + k\<rparr>,
      DEFAULT_PALETTE = pal\<rparr>"

definition shared_requests :: "(int \<times> CreateSegmentDTO) list" where
  "shared_requests = map (\<lambda>j. (21 + int j, auto_dto ''d2'')) [0..<11]"

section \<open>The file provider (services/drive.ts) and document registration (services/documents.ts)\<close>

record file_meta =
  file_id :: string
  file_name :: "string option"
  mimeType :: "string option"
  parents :: "string list"
  modifiedTime :: "int option"

text \<open>
  The answers of Google Drive and Google Docs: \<open>files.get\<close> for a file, \<open>files.copy\<close> of
  a file into a folder under a name, \<open>files.update\<close> of a file's properties (\<open>None\<close>
  when it succeeds), \<open>files.list\<close> for a folder, and \<open>documents.get\<close>.
\<close>

record provider =
  files_get :: "string \<Rightarrow> js_error + file_meta"
  files_copy :: "string \<Rightarrow> string \<Rightarrow> string option \<Rightarrow> js_error + file_meta"
  files_update :: "string \<Rightarrow> js_error option"
  files_list :: "string \<Rightarrow> js_error + file_meta list"
  documents_get :: "string \<Rightarrow> js_error + drive_doc"

definition getFileMetadata :: "provider \<Rightarrow> string \<Rightarrow> js_error + file_meta" where
  "getFileMetadata drv fileId =
     (case files_get drv fileId of
        Inr m \<Rightarrow> Inr m
      | Inl e \<Rightarrow>
          if code e = Some 404 then Inl (AppError ''File not found in Google Drive'' 404)
          else if code e = Some 403 then Inl (AppError ''Permission denied for this file'' 403)
          else Inl e)"

text \<open>
  The request of \<open>registerDocument\<close>, with the fields of \<open>createDocumentSchema\<close> (the
  declaration in \<open>types/documents.ts\<close> is not among the source files).
\<close>

record CreateDocumentDTO =
  dto_google_file_id :: string
  copy_to_folder :: "bool option"

text \<open>The query \<open>SELECT * FROM documents WHERE user_id = $1 AND google_file_id = $2\<close>.\<close>

definition find_registered :: "string \<Rightarrow> string \<Rightarrow> database \<Rightarrow> document list" where
  "find_registered userId fileId d =
     filter (\<lambda>row. doc_user_id row = userId \<and> google_file_id row = fileId) (documents d)"

text \<open>\<open>UPDATE documents SET is_active = $v WHERE id = $1\<close>, with the \<open>updated_at\<close> trigger.\<close>

definition set_active :: "bool \<Rightarrow> int \<Rightarrow> string \<Rightarrow> database \<Rightarrow> database" where
  "set_active v now docId d =
     d\<lparr>documents := map (\<lambda>row. if doc_id row = docId
                                then row\<lparr>is_active := v, doc_updated_at := now\<rparr>
                                else row) (documents d)\<rparr>"

definition fits :: "nat \<Rightarrow> string option \<Rightarrow> bool" where
  "fits n s = (case s of None \<Rightarrow> True | Some v \<Rightarrow> length v \<le> n)"

text \<open>
  \<open>INSERT INTO documents ... RETURNING *\<close> with the constraints of the schema: the
  lengths of the \<open>VARCHAR\<close> columns, the new primary key, \<open>UNIQUE(user_id,
  google_file_id)\<close> and the user.
\<close>

definition insert_document ::
  "(nat \<Rightarrow> string) \<Rightarrow> int \<Rightarrow> string \<Rightarrow> string \<Rightarrow> file_meta \<Rightarrow> database
     \<Rightarrow> js_error + document \<times> database" where
  "insert_document uuid now userId fileId meta d =
     (let new_id = uuid (uuid_counter d);
          d1 = d\<lparr>uuid_counter := Suc (uuid_counter d)\<rparr>;
          parentId = (case parents meta of [] \<Rightarrow> None | p # _ \<Rightarrow> Some p)
      in if \<not> (length fileId \<le> 255 \<and> fits 500 (file_name meta) \<and> fits 255 parentId
                 \<and> fits 100 (mimeType meta))
           then Inl (pg_error ''value too long for type character varying'')
         else if new_id \<in> doc_id ` set (documents d) \<or> find_registered userId fileId d \<noteq> []
           then Inl (pg_error ''duplicate key value violates unique constraint'')
         else if userId \<notin> user_id ` set (users d)
           then Inl (pg_error ''insert violates foreign key constraint'')
         else
           (let row = \<lparr>doc_id = new_id, doc_user_id = userId, google_file_id = fileId,
                       doc_title = file_name meta, google_folder_id = parentId,
                       mime_type = mimeType meta, last_synced_at = None,
                       last_modified_at = modifiedTime meta, is_active = True,
                       doc_updated_at = now\<rparr>
            in Inr (row, d1\<lparr>documents := documents d1 @ [row]\<rparr>)))"

text \<open>Step 2 of \<open>registerDocument\<close>: the file to register, the copy when one is asked for.\<close>

definition copy_if_requested :: "provider \<Rightarrow> user \<Rightarrow> CreateDocumentDTO \<Rightarrow> js_error + string" where
  "copy_if_requested drv usr dto =
     (if copy_to_folder dto = Some True then
        (case watched_folder_id usr of
           None \<Rightarrow> Inl (AppError ''User has no watched folder configured'' 400)
         | Some folder \<Rightarrow>
             if folder = [] then Inl (AppError ''User has no watched folder configured'' 400)
             else
               (case getFileMetadata drv (dto_google_file_id dto) of
                  Inl e \<Rightarrow> Inl e
                | Inr originalMeta \<Rightarrow>
                    (case files_copy drv (dto_google_file_id dto) folder (file_name originalMeta) of
                       Inl e \<Rightarrow> Inl e
                     | Inr copyRes \<Rightarrow> Inr (file_id copyRes))))
      else Inr (dto_google_file_id dto))"

definition registerDocument ::
  "provider \<Rightarrow> (nat \<Rightarrow> string) \<Rightarrow> int \<Rightarrow> user \<Rightarrow> CreateDocumentDTO \<Rightarrow> database
     \<Rightarrow> (js_error + document) \<times> database" where
  "registerDocument drv uuid now usr dto d =
     (case find_registered (user_id usr) (dto_google_file_id dto) d of
        existing # _ \<Rightarrow>
          if \<not> is_active existing then (Inr existing, set_active True now (doc_id existing) d)
          else (Inr existing, d)
      | [] \<Rightarrow>
          (case copy_if_requested drv usr dto of
             Inl e \<Rightarrow> (Inl e, d)
           | Inr fileId \<Rightarrow>
               (case getFileMetadata drv fileId of
                  Inl e \<Rightarrow> (Inl e, d)
                | Inr meta \<Rightarrow>
                    (case insert_document uuid now (user_id usr) fileId meta d of
                       Inl e \<Rightarrow> (Inl e, d)
                     | Inr (newDoc, d1) \<Rightarrow>
                         (case files_update drv fileId of
                            Some e \<Rightarrow> (Inl e, d1)
                          | None \<Rightarrow> (Inr newDoc, d1))))))"

section \<open>Whole-folder sync (services/sync.ts)\<close>

text \<open>
  \<open>new Map(rows.map(d => [d.google_file_id, d.id]))\<close> over the active documents of the
  user: a \<open>Map\<close> keeps its keys in insertion order, and setting a key again keeps its
  place, as \<open>AList.update\<close> does.
\<close>

definition active_documents :: "string \<Rightarrow> database \<Rightarrow> document list" where
  "active_documents userId d =
     filter (\<lambda>row. doc_user_id row = userId \<and> is_active row) (documents d)"

definition dbDocsMap_of :: "document list \<Rightarrow> (string \<times> string) list" where
  "dbDocsMap_of rows = foldl (\<lambda>m row. AList.update (google_file_id row) (doc_id row) m) [] rows"

definition initial_full_result :: FullSyncResult where
  "initial_full_result =
     \<lparr>documents_synced = 0, documents_added = 0, documents_removed = 0,
      segments_updated = 0, errors = []\<rparr>"

text \<open>
  The body of the loop over the listed files, on the result, the map and the
  database. A registered file is reconciled, and what \<open>syncDocument\<close> throws is caught
  and recorded; another file is registered, and what \<open>registerDocument\<close> throws is caught
  and written to the console.
\<close>

definition process_file ::
  "provider \<Rightarrow> (nat \<Rightarrow> string) \<Rightarrow> int \<Rightarrow> string \<Rightarrow> file_meta
     \<Rightarrow> FullSyncResult \<times> (string \<times> string) list \<times> database
     \<Rightarrow> FullSyncResult \<times> (string \<times> string) list \<times> database" where
  "process_file drv uuid now userId file st =
     (case st of (result, dbDocsMap, d) \<Rightarrow>
        (case map_of dbDocsMap (file_id file) of
           Some docId \<Rightarrow>
             (case syncDocument (documents_get drv) now userId docId d of
                (Inr singleRes, d1) \<Rightarrow>
                  (result\<lparr>documents_synced := Suc (documents_synced result),
                          segments_updated := segments_updated result
                                                + updated_segments singleRes\<rparr>,
                   AList.delete (file_id file) dbDocsMap, d1)
              | (Inl err, d1) \<Rightarrow>
                  (result\<lparr>errors := errors result @
                             [\<lparr>err_document_id = docId, err_error = message err\<rparr>]\<rparr>,
                   AList.delete (file_id file) dbDocsMap, d1))
         | None \<Rightarrow>
             (case registerDocument drv uuid now
                     \<lparr>user_id = userId, watched_folder_id = None\<rparr>
                     \<lparr>dto_google_file_id = file_id file, copy_to_folder = None\<rparr> d of
                (Inr newDoc, d1) \<Rightarrow>
                  (result\<lparr>documents_added := Suc (documents_added result)\<rparr>, dbDocsMap, d1)
              | (Inl err, d1) \<Rightarrow> (result, dbDocsMap, d1))))"

fun process_files ::
  "provider \<Rightarrow> (nat \<Rightarrow> string) \<Rightarrow> int \<Rightarrow> string \<Rightarrow> file_meta list
     \<Rightarrow> FullSyncResult \<times> (string \<times> string) list \<times> database
     \<Rightarrow> FullSyncResult \<times> (string \<times> string) list \<times> database" where
  "process_files drv uuid now userId [] st = st"
| "process_files drv uuid now userId (file # rest) st =
     process_files drv uuid now userId rest (process_file drv uuid now userId file st)"

text \<open>The loop over what is left in the map: the documents no longer in the folder.\<close>

fun remove_documents ::
  "int \<Rightarrow> (string \<times> string) list \<Rightarrow> FullSyncResult \<times> database \<Rightarrow> FullSyncResult \<times> database" where
  "remove_documents now [] st = st"
| "remove_documents now ((googleId, docId) # rest) (result, d) =
     remove_documents now rest
       (result\<lparr>documents_removed := Suc (documents_removed result)\<rparr>,
        d\<lparr>documents := map (\<lambda>row. if doc_id row = docId then row\<lparr>is_active := False,
                                        doc_updated_at := now\<rparr> else row) (documents d)\<rparr>)"

text \<open>\<open>userRes.rows[0]?.watched_folder_id\<close>, when it is not falsy.\<close>

definition watched_folder :: "string \<Rightarrow> database \<Rightarrow> string option" where
  "watched_folder userId d =
     (case filter (\<lambda>u. user_id u = userId) (users d) of
        [] \<Rightarrow> None
      | u # _ \<Rightarrow>
          (case watched_folder_id u of
             None \<Rightarrow> None
           | Some f \<Rightarrow> if f = [] then None else Some f))"

text \<open>
  \<open>syncAllDocuments\<close>. The call \<open>fetchDocument(userId, 'mock-id')\<close> before the listing
  has its error caught and its result dropped, and changes nothing.
\<close>

definition syncAllDocuments ::
  "provider \<Rightarrow> (nat \<Rightarrow> string) \<Rightarrow> int \<Rightarrow> string \<Rightarrow> database
     \<Rightarrow> (js_error + FullSyncResult) \<times> database" where
  "syncAllDocuments drv uuid now userId d =
     (case watched_folder userId d of
        None \<Rightarrow> (Inl (AppError ''No watched folder configured'' 400), d)
      | Some folderId \<Rightarrow>
          (case files_list drv folderId of
             Inl e \<Rightarrow> (Inl e, d)
           | Inr driveFiles \<Rightarrow>
               (case process_files drv uuid now userId driveFiles
                       (initial_full_result, dbDocsMap_of (active_documents userId d), d) of
                  (result1, remaining, d1) \<Rightarrow>
                    (case remove_documents now remaining (result1, d1) of
                       (result2, d2) \<Rightarrow>
                         (case logSync userId None ''full_sync'' ''success''
                                 (FullResultDetails result2) d2 of
                            Inl e \<Rightarrow> (Inl e, d2)
                          | Inr d3 \<Rightarrow> (Inr result2, d3))))))"

subsection \<open>A provider and a database for concrete runs\<close>

text \<open>
  A provider that knows the files \<open>g1\<close>, \<open>g2\<close> and \<open>g3\<close> of folder \<open>f1\<close>; \<open>documents.get\<close>
  fails for \<open>g1\<close> with a server error and gives the example document for the others.
\<close>

definition ex_meta :: "string \<Rightarrow> file_meta" where
  "ex_meta g =
     \<lparr>file_id = g, file_name = Some ''Notes'', mimeType = None, parents = [''f1''],
      modifiedTime = None\<rparr>"

definition ex_provider :: provider where
  "ex_provider =
     \<lparr>files_get = (\<lambda>g. Inr (ex_meta g)),
      files_copy = (\<lambda>g folder nm. Inr (ex_meta (g @ ''-copy''))),
      files_update = (\<lambda>g. None),
      files_list = (\<lambda>folder. if folder = ''f1'' then Inr [ex_meta ''g1'', ex_meta ''g2'', ex_meta ''g3'']
                               else Inl \<lparr>statusCode = None, code = Some 404,
                                        message = ''File not found''\<rparr>),
      documents_get = (\<lambda>g. if g = ''g1''
                             then Inl \<lparr>statusCode = None, code = Some 500,
                                      message = ''Backend Error''\<rparr>
                             else Inr (ex_drive_doc []))\<rparr>"

text \<open>The example database with its document soft-deleted.\<close>

definition inactive_db :: database where
  "inactive_db = ex_db\<lparr>documents := [ex_document\<lparr>is_active := False\<rparr>]\<rparr>"

text \<open>The example database with a second registered document, for file \<open>g2\<close>.\<close>

definition two_docs_db :: database where
  "two_docs_db =
     ex_db\<lparr>documents :=
             [ex_document,
              ex_document\<lparr>doc_id := ''d2'', google_file_id := ''g2''\<rparr>]\<rparr>"

subsection \<open>What the loop over the files records\<close>

text \<open>
  A listed file taken alone, on a database \<open>d\<close> and with the map \<open>m\<close> of registered
  documents: the entry of \<open>errors\<close> when the file is registered and the reconciliation of
  its document throws; whether the file is registered and the reconciliation returns;
  and whether the file is not registered and its registration returns a document.
\<close>

definition recorded_error ::
  "provider \<Rightarrow> int \<Rightarrow> string \<Rightarrow> database \<Rightarrow> (string \<times> string) list \<Rightarrow> file_meta
     \<Rightarrow> sync_error option" where
  "recorded_error drv now userId d m file =
     (case map_of m (file_id file) of
        None \<Rightarrow> None
      | Some docId \<Rightarrow>
          (case fst (syncDocument (documents_get drv) now userId docId d) of
             Inl e \<Rightarrow> Some \<lparr>err_document_id = docId, err_error = message e\<rparr>
           | Inr r \<Rightarrow> None))"

definition synced_ok ::
  "provider \<Rightarrow> int \<Rightarrow> string \<Rightarrow> database \<Rightarrow> (string \<times> string) list \<Rightarrow> file_meta \<Rightarrow> bool" where
  "synced_ok drv now userId d m file =
     (case map_of m (file_id file) of
        None \<Rightarrow> False
      | Some docId \<Rightarrow>
          (case fst (syncDocument (documents_get drv) now userId docId d) of
             Inl e \<Rightarrow> False
           | Inr r \<Rightarrow> True))"

definition registered_ok ::
  "provider \<Rightarrow> (nat \<Rightarrow> string) \<Rightarrow> int \<Rightarrow> string \<Rightarrow> database \<Rightarrow> (string \<times> string) list
     \<Rightarrow> file_meta \<Rightarrow> bool" where
  "registered_ok drv uuid now userId d m file =
     (case map_of m (file_id file) of
        Some docId \<Rightarrow> False
      | None \<Rightarrow>
          (case fst (registerDocument drv uuid now
                       \<lparr>user_id = userId, watched_folder_id = None\<rparr>
                       \<lparr>dto_google_file_id = file_id file, copy_to_folder = None\<rparr> d) of
             Inl e \<Rightarrow> False
           | Inr newDoc \<Rightarrow> True))"

text \<open>The key columns of the documents table, and the file of the row a lookup finds.\<close>

definition doc_keys :: "database \<Rightarrow> (string \<times> string \<times> string) list" where
  "doc_keys d = map (\<lambda>row. (doc_id row, doc_user_id row, google_file_id row)) (documents d)"

definition first_file :: "string \<Rightarrow> string \<Rightarrow> database \<Rightarrow> string option" where
  "first_file userId documentId d =
     first_elem (map google_file_id (find_document userId documentId d))"

text \<open>
  What a reconciliation reads of the database: the file of the row the lookup finds,
  and the segments of the document.
\<close>

definition sync_view :: "string \<Rightarrow> string \<Rightarrow> database \<Rightarrow> string option \<times> segment list" where
  "sync_view userId documentId d =
     (first_file userId documentId d,
      filter (\<lambda>s. seg_document_id s = documentId) (segments d))"

text \<open>
  What stays true between two files of the loop, against the database \<open>d0\<close> the loop
  started from, for the map \<open>m\<close> of the documents still to reconcile and the files still
  to process: the reconciliation of a document of the map reads what it reads in \<open>d0\<close>;
  a file still to process has a row of the user exactly when it has one in \<open>d0\<close>; the
  users are those of \<open>d0\<close>; a document identifier that is not of \<open>d0\<close> is one of the
  identifiers generated so far; and the identifiers of the segments are all different.
\<close>

definition loop_invariant ::
  "(nat \<Rightarrow> string) \<Rightarrow> string \<Rightarrow> database \<Rightarrow> (string \<times> string) list \<Rightarrow> file_meta list
     \<Rightarrow> database \<Rightarrow> bool" where
  "loop_invariant uuid userId d0 m files d =
     ((\<forall>(k, i) \<in> set m. sync_view userId i d = sync_view userId i d0
                          \<and> first_file userId i d0 = Some k)
      \<and> (\<forall>f \<in> set files. (find_registered userId (file_id f) d = [])
                            = (find_registered userId (file_id f) d0 = []))
      \<and> users d = users d0
      \<and> doc_id ` set (documents d)
           \<subseteq> doc_id ` set (documents d0) \<union> uuid ` {n. n < uuid_counter d}
      \<and> distinct (map seg_id (segments d)))"

section \<open>Properties of single-document reconciliation\<close>

lemma initial_result_fields:
  "status initial_result = Success"
  "updated_segments initial_result = 0"
  "repositioned_segments initial_result = 0"
  "orphaned_segments initial_result = []"
  "conflicts initial_result = []"
  by (simp_all add: initial_result_def)

lemma logSync_found:
  assumes "i \<in> doc_id ` set (documents db)"
  shows "logSync u (Some i) a s det db
           = Inr (db\<lparr>sync_log := sync_log db @ [log_row u (Some i) a s det]\<rparr>)"
  using assms by (simp add: logSync_def log_row_def)

lemma logSync_None:
  "logSync u None a s det db = Inr (db\<lparr>sync_log := sync_log db @ [log_row u None a s det]\<rparr>)"
  by (simp add: logSync_def log_row_def)

lemma find_document_id:
  assumes "find_document u i db = doc # others"
  shows "i \<in> doc_id ` set (documents db)"
proof -
  have "doc \<in> set (find_document u i db)" using assms by simp
  then have "doc \<in> set (documents db)" "doc_id doc = i" by (simp_all add: find_document_def)
  then show ?thesis by (metis imageI)
qed

lemma sync_catch_found:
  assumes "i \<in> doc_id ` set (documents db)"
  shows "sync_catch e u i db =
     (Inl e, db\<lparr>sync_log := sync_log db @
        [log_row u (Some i) ''single_sync'' ''failed'' (ErrorDetails (message e))]\<rparr>)"
  by (simp add: sync_catch_def logSync_found[OF assms])

lemma sync_catch_missing:
  assumes "i \<notin> doc_id ` set (documents db)"
  shows "sync_catch e u i db =
     (Inl (pg_error ''insert or update on table sync_log violates foreign key constraint''), db)"
  using assms by (simp add: sync_catch_def logSync_def)

lemma changed_ids_Cons:
  "changed_ids ft rg (sg # rest) =
     (if textChanged ft rg sg \<or> posChanged rg sg then insert (seg_id sg) (changed_ids ft rg rest)
      else changed_ids ft rg rest)"
  by (auto simp add: changed_ids_def)

lemma changed_ids_Nil: "changed_ids ft rg [] = {}"
  by (simp add: changed_ids_def)

lemma seg_id_synced_row: "seg_id (synced_row now ft rg row) = seg_id row"
  by (simp add: synced_row_def split: option.splits)

lemma synced_row_idem: "synced_row now ft rg (synced_row now ft rg row) = synced_row now ft rg row"
  by (simp add: synced_row_def split: option.splits)

lemma reconcile_segment_Some:
  assumes "rg (seg_id sg) = Some r"
  shows "reconcile_segment now ft rg sg (res, tbl) =
     (if textChanged ft rg sg \<or> posChanged rg sg then
        (case update_segment_row now (rstart r) (rend r) (substring ft (rstart r) (rend r))
                (seg_id sg) tbl of
           Inl e \<Rightarrow> Inl e
         | Inr tbl' \<Rightarrow>
             Inr (res\<lparr>updated_segments :=
                        (if textChanged ft rg sg then Suc (updated_segments res)
                         else updated_segments res),
                      repositioned_segments :=
                        (if posChanged rg sg \<and> \<not> textChanged ft rg sg
                         then Suc (repositioned_segments res)
                         else repositioned_segments res)\<rparr>,
                  tbl'))
      else Inr (res, tbl))"
proof -
  have tc: "textChanged ft rg sg = (substring ft (rstart r) (rend r) \<noteq> text_content sg)"
    using assms by (simp add: textChanged_def)
  have pc: "posChanged rg sg = (rstart r \<noteq> start_offset sg \<or> rend r \<noteq> end_offset sg)"
    using assms by (simp add: posChanged_def)
  show ?thesis
    unfolding tc pc
    by (simp only: reconcile_segment_def prod.case assms option.case Let_def)
qed

text \<open>One pass of the loop, for a segment whose \<open>UPDATE\<close> is not rejected.\<close>

lemma reconcile_segment_accepted:
  assumes "\<not> rejected ft rg sg"
  shows "reconcile_segment now ft rg sg (res, tbl) =
    Inr (res\<lparr>updated_segments := updated_segments res + (if textChanged ft rg sg then 1 else 0),
             repositioned_segments := repositioned_segments res
                + (if posChanged rg sg \<and> \<not> textChanged ft rg sg then 1 else 0),
             orphaned_segments := orphaned_segments res
                @ (if rg (seg_id sg) = None then [orphan_of sg] else []),
             conflicts := conflicts res
                @ (if rg (seg_id sg) = None then [missing_conflict sg] else [])\<rparr>,
         if textChanged ft rg sg \<or> posChanged rg sg
         then map (\<lambda>row. if seg_id row = seg_id sg then synced_row now ft rg row else row) tbl
         else tbl)"
proof (cases "rg (seg_id sg)")
  case None
  then show ?thesis
    by (simp add: reconcile_segment_def textChanged_def posChanged_def orphan_of_def
        missing_conflict_def)
next
  case (Some r)
  then have fit: "textChanged ft rg sg \<or> posChanged rg sg \<Longrightarrow> int4 (rstart r) \<and> int4 (rend r)"
    using assms by (simp add: rejected_def)
  show ?thesis
  proof (cases "textChanged ft rg sg \<or> posChanged rg sg")
    case False
    then show ?thesis
      unfolding reconcile_segment_Some[of rg sg r, OF Some] using Some by simp
  next
    case True
    have upd: "update_segment_row now (rstart r) (rend r) (substring ft (rstart r) (rend r))
                 (seg_id sg) tbl
               = Inr (map (\<lambda>row. if seg_id row = seg_id sg then synced_row now ft rg row else row) tbl)"
      using fit[OF True] Some by (simp add: update_segment_row_def synced_row_def cong: map_cong)
    show ?thesis
      unfolding reconcile_segment_Some[of rg sg r, OF Some] upd using True Some by auto
  qed
qed

lemma reconcile_segment_rejected:
  assumes "rejected ft rg sg"
  shows "reconcile_segment now ft rg sg (res, tbl)
           = Inl (pg_error ''value is out of range for type integer'')"
proof -
  obtain r where r: "rg (seg_id sg) = Some r"
    and ch: "textChanged ft rg sg \<or> posChanged rg sg"
    and bad: "\<not> (int4 (rstart r) \<and> int4 (rend r))"
    using assms by (auto simp add: rejected_def split: option.splits)
  have upd: "update_segment_row now (rstart r) (rend r) (substring ft (rstart r) (rend r))
                 (seg_id sg) tbl = Inl (pg_error ''value is out of range for type integer'')"
    using bad by (simp add: update_segment_row_def)
  show ?thesis
    unfolding reconcile_segment_Some[of rg sg r, OF r] upd using ch by simp
qed

text \<open>
  The loop when no \<open>UPDATE\<close> is rejected: the result, counter by counter and list by
  list, and the table, where the rows whose identifier belongs to a changed segment of
  the snapshot carry their range and every other row is as it was.
\<close>

lemma reconcile_accepted:
  assumes "\<not> list_ex (rejected ft rg) xs"
  shows "reconcile now ft rg xs (res, tbl) =
     Inr (res\<lparr>updated_segments := updated_segments res + length (filter (textChanged ft rg) xs),
              repositioned_segments := repositioned_segments res +
                 length (filter (\<lambda>x. posChanged rg x \<and> \<not> textChanged ft rg x) xs),
              orphaned_segments := orphaned_segments res @
                 map orphan_of (filter (\<lambda>x. rg (seg_id x) = None) xs),
              conflicts := conflicts res @
                 map missing_conflict (filter (\<lambda>x. rg (seg_id x) = None) xs)\<rparr>,
          synced_table now ft rg xs tbl)"
  using assms
proof (induction xs arbitrary: res tbl)
  case Nil
  then show ?case by (simp add: synced_table_def changed_ids_Nil)
next
  case (Cons sg rest)
  have head: "\<not> rejected ft rg sg" and tail: "\<not> list_ex (rejected ft rg) rest"
    using Cons.prems by simp_all
  have tables: "synced_table now ft rg rest
           (if textChanged ft rg sg \<or> posChanged rg sg
            then map (\<lambda>row. if seg_id row = seg_id sg then synced_row now ft rg row else row) tbl
            else tbl)
         = synced_table now ft rg (sg # rest) tbl"
    by (simp add: synced_table_def changed_ids_Cons seg_id_synced_row synced_row_idem)
  show ?case
    unfolding reconcile.simps reconcile_segment_accepted[OF head] sum.case
      Cons.IH[OF tail] tables
    by simp
qed

text \<open>The loop when an \<open>UPDATE\<close> is rejected: the error of that statement.\<close>

lemma reconcile_rejected:
  assumes "list_ex (rejected ft rg) xs"
  shows "reconcile now ft rg xs (res, tbl)
           = Inl (pg_error ''value is out of range for type integer'')"
  using assms
proof (induction xs arbitrary: res tbl)
  case Nil
  then show ?case by simp
next
  case (Cons sg rest)
  show ?case
  proof (cases "rejected ft rg sg")
    case True
    show ?thesis
      unfolding reconcile.simps reconcile_segment_rejected[OF True] by simp
  next
    case False
    then have tail: "list_ex (rejected ft rg) rest" using Cons.prems by simp
    show ?thesis
      unfolding reconcile.simps reconcile_segment_accepted[OF False] sum.case
      by (rule Cons.IH[OF tail])
  qed
qed

lemma reconcile_initial:
  assumes "\<not> list_ex (rejected ft rg) xs"
  shows "reconcile now ft rg xs (initial_result, tbl)
           = Inr (sync_result ft rg xs, synced_table now ft rg xs tbl)"
  unfolding reconcile_accepted[OF assms]
  by (simp add: initial_result_def sync_result_def)

lemma doc_ids_map:
  assumes "\<And>d. doc_id (f d) = doc_id d"
  shows "doc_id ` set (map f docs) = doc_id ` set docs"
proof -
  have "map doc_id (map f docs) = map doc_id docs" using assms by simp
  then have "set (map doc_id (map f docs)) = set (map doc_id docs)" by (rule arg_cong)
  then show ?thesis by (simp only: set_map)
qed

text \<open>The exits of \<open>syncDocument\<close>.\<close>

lemma syncDocument_fetched:
  assumes found: "find_document userId documentId db = doc # others"
    and fetch: "fetchDocument docs_get (google_file_id doc) = Inr driveDoc"
    and ok: "storable driveDoc documentId db"
  shows "syncDocument docs_get now userId documentId db =
    (Inr (sync_result (body_text driveDoc) (getCmmsNamedRanges driveDoc)
             (filter (\<lambda>s. seg_document_id s = documentId) (segments db))),
     db\<lparr>segments := synced_table now (body_text driveDoc) (getCmmsNamedRanges driveDoc)
             (filter (\<lambda>s. seg_document_id s = documentId) (segments db)) (segments db),
        documents := map (\<lambda>d. if doc_id d = documentId
                                then d\<lparr>last_synced_at := Some now,
                                       doc_title := Some (gdoc_title driveDoc),
                                       doc_updated_at := now\<rparr>
                                else d) (documents db),
        sync_log := sync_log db @
          [log_row userId (Some documentId) ''single_sync'' ''success''
             (ResultDetails (sync_result (body_text driveDoc) (getCmmsNamedRanges driveDoc)
                (filter (\<lambda>s. seg_document_id s = documentId) (segments db))))]\<rparr>)"
proof -
  let ?f = "\<lambda>d. if doc_id d = documentId
                  then d\<lparr>last_synced_at := Some now, doc_title := Some (gdoc_title driveDoc),
                         doc_updated_at := now\<rparr> else d"
  let ?snap = "filter (\<lambda>s. seg_document_id s = documentId) (segments db)"
  have acc: "\<not> list_ex (rejected (body_text driveDoc) (getCmmsNamedRanges driveDoc)) ?snap"
    and title: "\<not> length (gdoc_title driveDoc) > 500"
    using ok by (simp_all add: storable_def)
  have ids: "documentId \<in> doc_id ` set (documents db)"
    using found by (rule find_document_id)
  have "doc_id ` set (map ?f (documents db)) = doc_id ` set (documents db)"
    by (rule doc_ids_map) simp
  then have ids1: "documentId \<in> doc_id ` set (documents (db\<lparr>segments := tbl,
                      documents := map ?f (documents db)\<rparr>))" for tbl
    using ids by simp
  show ?thesis
    unfolding syncDocument_def found fetch list.case sum.case Let_def
      reconcile_initial[OF acc] prod.case
    using title by (simp add: logSync_found[OF ids1])
qed

lemma syncDocument_unstorable:
  assumes found: "find_document userId documentId db = doc # others"
    and fetch: "fetchDocument docs_get (google_file_id doc) = Inr driveDoc"
    and bad: "\<not> storable driveDoc documentId db"
  shows "syncDocument docs_get now userId documentId db =
    (Inl (sync_rejection driveDoc documentId db),
     db\<lparr>sync_log := sync_log db @
        [log_row userId (Some documentId) ''single_sync'' ''failed''
           (ErrorDetails (message (sync_rejection driveDoc documentId db)))]\<rparr>)"
proof -
  let ?snap = "filter (\<lambda>s. seg_document_id s = documentId) (segments db)"
  have ids: "documentId \<in> doc_id ` set (documents db)"
    using found by (rule find_document_id)
  show ?thesis
  proof (cases "list_ex (rejected (body_text driveDoc) (getCmmsNamedRanges driveDoc)) ?snap")
    case True
    then have e: "sync_rejection driveDoc documentId db
                    = pg_error ''value is out of range for type integer''"
      by (simp add: sync_rejection_def)
    show ?thesis
      unfolding syncDocument_def found fetch list.case sum.case Let_def
        reconcile_rejected[OF True] sync_catch_found[OF ids] e ..
  next
    case False
    then have long: "length (gdoc_title driveDoc) > 500"
      using bad by (simp add: storable_def)
    have e: "sync_rejection driveDoc documentId db
               = pg_error ''value too long for type character varying(500)''"
      using False by (simp add: sync_rejection_def)
    show ?thesis
      unfolding syncDocument_def found fetch list.case sum.case Let_def
        reconcile_initial[OF False] prod.case sync_catch_found[OF ids] e
      using long by simp
  qed
qed

lemma syncDocument_lost_exit:
  assumes found: "find_document userId documentId db = doc # others"
    and fetch: "fetchDocument docs_get (google_file_id doc) = Inl e"
    and lost: "statusCode e = Some 404 \<or> statusCode e = Some 403"
  shows "syncDocument docs_get now userId documentId db =
    (Inr \<lparr>status = Failed, updated_segments = 0, repositioned_segments = 0,
          orphaned_segments = [],
          conflicts = [\<lparr>segment_id = ''all'', ctype = document_access_lost,
                        details = message e\<rparr>]\<rparr>,
     db\<lparr>documents := map (\<lambda>d. if doc_id d = documentId
                                then d\<lparr>is_active := False, doc_updated_at := now\<rparr> else d)
                          (documents db),
        sync_log := sync_log db @
          [log_row userId (Some documentId) ''single_sync'' ''failed''
             (ErrorDetails (message e))]\<rparr>)"
proof -
  let ?f = "\<lambda>d. if doc_id d = documentId
                  then d\<lparr>is_active := False, doc_updated_at := now\<rparr> else d"
  have ids: "documentId \<in> doc_id ` set (documents db)"
    using found by (rule find_document_id)
  have "doc_id ` set (map ?f (documents db)) = doc_id ` set (documents db)"
    by (rule doc_ids_map) simp
  then have ids1: "documentId \<in> doc_id ` set (documents (db\<lparr>documents := map ?f (documents db)\<rparr>))"
    using ids by simp
  show ?thesis
    unfolding syncDocument_def found fetch list.case sum.case Let_def
    using lost by (simp add: logSync_found[OF ids1] initial_result_def)
qed

lemma syncDocument_fetch_error:
  assumes found: "find_document userId documentId db = doc # others"
    and fetch: "fetchDocument docs_get (google_file_id doc) = Inl e"
    and other: "statusCode e \<noteq> Some 404" "statusCode e \<noteq> Some 403"
  shows "syncDocument docs_get now userId documentId db =
    (Inl e, db\<lparr>sync_log := sync_log db @
        [log_row userId (Some documentId) ''single_sync'' ''failed'' (ErrorDetails (message e))]\<rparr>)"
proof -
  have ids: "documentId \<in> doc_id ` set (documents db)"
    using found by (rule find_document_id)
  show ?thesis
    unfolding syncDocument_def found fetch list.case sum.case
    using other by (simp add: sync_catch_found[OF ids])
qed

text \<open>
  The exit for a document the query does not find. The failure is logged under the
  identifier when some row of \<open>documents\<close> has it (a row of another user); when none
  has, the log row is rejected and the error thrown is that of the database.
\<close>

lemma syncDocument_not_found:
  assumes "find_document userId documentId db = []"
  shows "syncDocument docs_get now userId documentId db =
    (if documentId \<in> doc_id ` set (documents db)
     then (Inl (AppError ''Document not found'' 404),
           db\<lparr>sync_log := sync_log db @
             [log_row userId (Some documentId) ''single_sync'' ''failed''
                (ErrorDetails ''Document not found'')]\<rparr>)
     else (Inl (pg_error ''insert or update on table sync_log violates foreign key constraint''),
           db))"
  unfolding syncDocument_def assms list.case
  by (simp add: sync_catch_found sync_catch_missing AppError_def)

lemma find_document_map:
  assumes "\<And>d. doc_id (f d) = doc_id d" and "\<And>d. doc_user_id (f d) = doc_user_id d"
    and "documents db' = map f (documents db)"
  shows "find_document userId documentId db' = map f (find_document userId documentId db)"
  using assms by (simp add: find_document_def filter_map comp_def)

text \<open>
  What \<open>fetchDocument\<close> makes of the provider's 404 and 403: an \<open>AppError\<close> whose
  \<open>statusCode\<close> is that number.
\<close>

lemma fetchDocument_provider_code:
  assumes "docs_get g = Inl e0" and "code e0 = Some 404 \<or> code e0 = Some 403"
  shows "\<exists>e. fetchDocument docs_get g = Inl e \<and> statusCode e = code e0"
  using assms by (auto simp add: fetchDocument_def AppError_def)

text \<open>
  Claim C5. When the document is found and the fetch fails with \<open>statusCode\<close> 404 or
  403, \<open>syncDocument\<close> returns (it does not throw) a result of status \<open>failed\<close>
  whose only conflict is \<open>document_access_lost\<close> on \<open>all\<close>, with zero counters and no
  orphan; the rows of the document have \<open>is_active = false\<close>, every other document row
  and every segment row is as before, and one \<open>failed\<close> row is appended to the sync
  log. With any other fetch error the call throws that error.
\<close>

theorem syncDocument_access_lost:
  assumes found: "find_document userId documentId db = doc # others"
    and fetch: "fetchDocument docs_get (google_file_id doc) = Inl e"
  shows "if statusCode e = Some 404 \<or> statusCode e = Some 403
         then (\<exists>res db'. syncDocument docs_get now userId documentId db = (Inr res, db')
                 \<and> status res = Failed
                 \<and> conflicts res = [\<lparr>segment_id = ''all'', ctype = document_access_lost,
                                      details = message e\<rparr>]
                 \<and> updated_segments res = 0 \<and> repositioned_segments res = 0
                 \<and> orphaned_segments res = []
                 \<and> documents db' =
                     map (\<lambda>d. if doc_id d = documentId
                               then d\<lparr>is_active := False, doc_updated_at := now\<rparr> else d)
                         (documents db)
                 \<and> list_all (\<lambda>d. doc_id d \<noteq> documentId \<or> \<not> is_active d) (documents db')
                 \<and> sync_log db' = sync_log db @
                     [\<lparr>log_user_id = userId, log_document_id = Some documentId,
                       log_action = ''single_sync'', log_status = ''failed'',
                       log_details = ErrorDetails (message e)\<rparr>]
                 \<and> segments db' = segments db)
         else fst (syncDocument docs_get now userId documentId db) = Inl e"
proof (cases "statusCode e = Some 404 \<or> statusCode e = Some 403")
  case True
  let ?f = "\<lambda>d. if doc_id d = documentId
                     then d\<lparr>is_active := False, doc_updated_at := now\<rparr> else d"
  have inactive: "list_all (\<lambda>d. doc_id d \<noteq> documentId \<or> \<not> is_active d) (map ?f docs)" for docs
    by (induction docs) simp_all
  obtain res db' where run: "syncDocument docs_get now userId documentId db = (Inr res, db')"
    and res: "res = \<lparr>status = Failed, updated_segments = 0, repositioned_segments = 0,
          orphaned_segments = [],
          conflicts = [\<lparr>segment_id = ''all'', ctype = document_access_lost,
                        details = message e\<rparr>]\<rparr>"
    and db': "db' = db\<lparr>documents := map ?f (documents db),
                       sync_log := sync_log db @
                         [log_row userId (Some documentId) ''single_sync'' ''failed''
                            (ErrorDetails (message e))]\<rparr>"
    using syncDocument_lost_exit[OF found fetch True, of now] by blast
  have "status res = Failed" "updated_segments res = 0" "repositioned_segments res = 0"
    "orphaned_segments res = []"
    "conflicts res = [\<lparr>segment_id = ''all'', ctype = document_access_lost,
                        details = message e\<rparr>]"
    by (simp_all add: res)
  moreover have "documents db' = map ?f (documents db)" "segments db' = segments db"
    "sync_log db' = sync_log db @
                     [\<lparr>log_user_id = userId, log_document_id = Some documentId,
                       log_action = ''single_sync'', log_status = ''failed'',
                       log_details = ErrorDetails (message e)\<rparr>]"
    by (simp_all add: db' log_row_def)
  moreover have "list_all (\<lambda>d. doc_id d \<noteq> documentId \<or> \<not> is_active d) (documents db')"
    unfolding \<open>documents db' = map ?f (documents db)\<close> by (rule inactive)
  ultimately have "\<exists>res db'. syncDocument docs_get now userId documentId db = (Inr res, db')
                 \<and> status res = Failed
                 \<and> conflicts res = [\<lparr>segment_id = ''all'', ctype = document_access_lost,
                                      details = message e\<rparr>]
                 \<and> updated_segments res = 0 \<and> repositioned_segments res = 0
                 \<and> orphaned_segments res = []
                 \<and> documents db' = map ?f (documents db)
                 \<and> list_all (\<lambda>d. doc_id d \<noteq> documentId \<or> \<not> is_active d) (documents db')
                 \<and> sync_log db' = sync_log db @
                     [\<lparr>log_user_id = userId, log_document_id = Some documentId,
                       log_action = ''single_sync'', log_status = ''failed'',
                       log_details = ErrorDetails (message e)\<rparr>]
                 \<and> segments db' = segments db"
    using run by blast
  then show ?thesis using True by (simp only: if_True)
next
  case False
  have "fst (syncDocument docs_get now userId documentId db) = Inl e"
    using syncDocument_fetch_error[OF found fetch, of now] False by simp
  then show ?thesis using False by (simp only: if_False)
qed

lemma ex_found: "find_document ''u1'' ''d1'' ex_db = [ex_document]"
  by (simp add: find_document_def ex_db_def ex_document_def)

theorem syncDocument_access_lost_witness:
  "find_document ''u1'' ''d1'' ex_db = [ex_document]
   \<and> fetchDocument ex_get_gone (google_file_id ex_document)
       = Inl (AppError ''Document not found in Google Drive'' 404)
   \<and> (\<exists>res db'. syncDocument ex_get_gone 7 ''u1'' ''d1'' ex_db = (Inr res, db')
         \<and> status res = Failed
         \<and> conflicts res = [\<lparr>segment_id = ''all'', ctype = document_access_lost,
                              details = ''Document not found in Google Drive''\<rparr>]
         \<and> map is_active (documents db') = [False]
         \<and> map log_status (sync_log db') = [''failed''])"
proof -
  have fetch: "fetchDocument ex_get_gone (google_file_id ex_document)
       = Inl (AppError ''Document not found in Google Drive'' 404)"
    by (simp add: fetchDocument_def ex_get_gone_def)
  have code: "statusCode (AppError ''Document not found in Google Drive'' 404) = Some 404"
    and msg: "message (AppError ''Document not found in Google Drive'' 404)
               = ''Document not found in Google Drive''"
    by (simp_all add: AppError_def)
  have ex: "documents ex_db = [ex_document]" "sync_log ex_db = []" "doc_id ex_document = ''d1''"
    by (simp_all add: ex_db_def ex_document_def)
  have "if statusCode (AppError ''Document not found in Google Drive'' 404) = Some 404
           \<or> statusCode (AppError ''Document not found in Google Drive'' 404) = Some 403
        then (\<exists>res db'. syncDocument ex_get_gone 7 ''u1'' ''d1'' ex_db = (Inr res, db')
                 \<and> status res = Failed
                 \<and> conflicts res = [\<lparr>segment_id = ''all'', ctype = document_access_lost,
                                      details = message (AppError ''Document not found in Google Drive'' 404)\<rparr>]
                 \<and> updated_segments res = 0 \<and> repositioned_segments res = 0
                 \<and> orphaned_segments res = []
                 \<and> documents db' =
                     map (\<lambda>d. if doc_id d = ''d1''
                               then d\<lparr>is_active := False, doc_updated_at := 7\<rparr> else d)
                         (documents ex_db)
                 \<and> list_all (\<lambda>d. doc_id d \<noteq> ''d1'' \<or> \<not> is_active d) (documents db')
                 \<and> sync_log db' = sync_log ex_db @
                     [\<lparr>log_user_id = ''u1'', log_document_id = Some ''d1'',
                       log_action = ''single_sync'', log_status = ''failed'',
                       log_details = ErrorDetails (message (AppError ''Document not found in Google Drive'' 404))\<rparr>]
                 \<and> segments db' = segments ex_db)
         else fst (syncDocument ex_get_gone 7 ''u1'' ''d1'' ex_db)
                = Inl (AppError ''Document not found in Google Drive'' 404)"
    using ex_found fetch by (rule syncDocument_access_lost)
  then obtain res db' where "syncDocument ex_get_gone 7 ''u1'' ''d1'' ex_db = (Inr res, db')"
    and "status res = Failed"
    and "conflicts res = [\<lparr>segment_id = ''all'', ctype = document_access_lost,
                              details = ''Document not found in Google Drive''\<rparr>]"
    and "documents db' = map (\<lambda>d. if doc_id d = ''d1''
                               then d\<lparr>is_active := False, doc_updated_at := 7\<rparr> else d)
                         (documents ex_db)"
    and "sync_log db' = sync_log ex_db @
                     [\<lparr>log_user_id = ''u1'', log_document_id = Some ''d1'',
                       log_action = ''single_sync'', log_status = ''failed'',
                       log_details = ErrorDetails ''Document not found in Google Drive''\<rparr>]"
    unfolding code msg by (simp only: simp_thms if_True) blast
  then have "\<exists>res db'. syncDocument ex_get_gone 7 ''u1'' ''d1'' ex_db = (Inr res, db')
         \<and> status res = Failed
         \<and> conflicts res = [\<lparr>segment_id = ''all'', ctype = document_access_lost,
                              details = ''Document not found in Google Drive''\<rparr>]
         \<and> map is_active (documents db') = [False]
         \<and> map log_status (sync_log db') = [''failed'']"
    by (simp add: ex)
  then show ?thesis using ex_found fetch by blast
qed

text \<open>
  Claim C3 (as amended). A run of \<open>syncDocument\<close> finds the document, fetches it and
  returns a result, and the provider answers the next run with the same document. Then
  the next run returns too, with status \<open>success\<close>, \<open>updated_segments = 0\<close> and
  \<open>repositioned_segments = 0\<close>. Its \<open>orphaned_segments\<close> are the stored segments of the
  document that have no named range, in the order of the table: the list the first run
  returned, which is empty exactly when every stored segment of the document has a
  named range. Its conflicts are those of the first run, and it leaves every segment row
  as the first run left it.
\<close>

theorem syncDocument_second_run:
  assumes found: "find_document userId documentId db = doc # others"
    and fetch: "fetchDocument docs_get (google_file_id doc) = Inr driveDoc"
    and run1: "syncDocument docs_get now1 userId documentId db = (Inr res1, db1)"
  shows "\<exists>res2 db2. syncDocument docs_get now2 userId documentId db1 = (Inr res2, db2)
           \<and> status res2 = Success
           \<and> updated_segments res2 = 0 \<and> repositioned_segments res2 = 0
           \<and> orphaned_segments res2 =
               map (\<lambda>s. \<lparr>orphan_id = seg_id s, orphan_title = seg_title s,
                          last_text = text_content s\<rparr>)
                 (filter (\<lambda>s. seg_document_id s = documentId
                              \<and> getCmmsNamedRanges driveDoc (seg_id s) = None) (segments db1))
           \<and> orphaned_segments res2 = orphaned_segments res1
           \<and> conflicts res2 = conflicts res1
           \<and> (orphaned_segments res2 = [] \<longleftrightarrow>
                list_all (\<lambda>s. seg_document_id s \<noteq> documentId
                               \<or> getCmmsNamedRanges driveDoc (seg_id s) \<noteq> None) (segments db1))
           \<and> segments db2 = segments db1"
proof -
  let ?ft = "body_text driveDoc"
  let ?rg = "getCmmsNamedRanges driveDoc"
  let ?snap = "filter (\<lambda>s. seg_document_id s = documentId) (segments db)"
  let ?f = "\<lambda>d. if doc_id d = documentId
                then d\<lparr>last_synced_at := Some now1, doc_title := Some (gdoc_title driveDoc),
                       doc_updated_at := now1\<rparr> else d"
  define F where "F = (\<lambda>row. if seg_id row \<in> changed_ids ?ft ?rg ?snap
               then synced_row now1 ?ft ?rg row else row)"
  have ok1: "storable driveDoc documentId db"
  proof (rule ccontr)
    assume "\<not> storable driveDoc documentId db"
    from syncDocument_unstorable[OF found fetch this, of now1]
    show False using run1 by simp
  qed
  have eq1: "res1 = sync_result ?ft ?rg ?snap"
    and docs1: "documents db1 = map ?f (documents db)"
    and segs1: "segments db1 = map F (segments db)"
    using syncDocument_fetched[OF found fetch ok1, of now1] run1
    by (simp_all add: synced_table_def F_def)
  have "find_document userId documentId db1 = map ?f (find_document userId documentId db)"
    by (rule find_document_map[OF _ _ docs1]) simp_all
  then have found1: "find_document userId documentId db1 = ?f doc # map ?f others"
    using found by simp
  have fetch1: "fetchDocument docs_get (google_file_id (?f doc)) = Inr driveDoc"
    using fetch by simp
  let ?snap2 = "filter (\<lambda>s. seg_document_id s = documentId) (segments db1)"
  have docF: "\<And>row. seg_document_id (F row) = seg_document_id row"
    by (simp add: F_def synced_row_def split: option.splits)
  have snap2: "?snap2 = map F ?snap"
    unfolding segs1 filter_map comp_def docF ..
  have stable: "\<not> textChanged ?ft ?rg (F x) \<and> \<not> posChanged ?rg (F x)" if "x \<in> set ?snap" for x
  proof (cases "seg_id x \<in> changed_ids ?ft ?rg ?snap")
    case True
    then show ?thesis
      by (simp add: F_def textChanged_def posChanged_def synced_row_def split: option.splits)
  next
    case False
    then have "\<not> (textChanged ?ft ?rg x \<or> posChanged ?rg x)"
      using that unfolding changed_ids_def by blast
    then show ?thesis using False by (simp add: F_def)
  qed
  have stable2: "\<not> textChanged ?ft ?rg y \<and> \<not> posChanged ?rg y" if "y \<in> set ?snap2" for y
  proof -
    from that obtain x where "x \<in> set ?snap" and "y = F x"
      unfolding snap2 by auto
    then show ?thesis using stable by blast
  qed
  have no_change: "changed_ids ?ft ?rg ?snap2 = {}"
    unfolding changed_ids_def using stable2 by blast
  have no_text: "filter (textChanged ?ft ?rg) ?snap2 = []"
    using stable2 by (simp only: filter_empty_conv) blast
  have no_pos: "filter (\<lambda>x. posChanged ?rg x \<and> \<not> textChanged ?ft ?rg x) ?snap2 = []"
    using stable2 by (simp only: filter_empty_conv) blast
  have "\<not> rejected ?ft ?rg y" if "y \<in> set ?snap2" for y
    using stable2[OF that] by (simp add: rejected_def split: option.splits)
  then have acc2: "\<not> list_ex (rejected ?ft ?rg) ?snap2"
    by (simp only: list_ex_iff) blast
  have ok2: "storable driveDoc documentId db1"
    using acc2 ok1 by (simp add: storable_def)
  have keepF: "F x = x" if "?rg (seg_id x) = None" for x
    using that by (simp add: F_def synced_row_def)
  have idF: "\<And>row. seg_id (F row) = seg_id row"
    by (simp add: F_def seg_id_synced_row)
  have orph: "filter (\<lambda>x. ?rg (seg_id x) = None) ?snap2 = filter (\<lambda>x. ?rg (seg_id x) = None) ?snap"
  proof -
    have "filter (\<lambda>x. ?rg (seg_id x) = None) (map F ?snap)
          = map F (filter (\<lambda>x. ?rg (seg_id x) = None) ?snap)"
      unfolding filter_map comp_def idF ..
    also have "\<dots> = filter (\<lambda>x. ?rg (seg_id x) = None) ?snap"
      by (rule map_idI) (simp add: keepF)
    finally show ?thesis unfolding snap2 .
  qed
  define res2 where "res2 = sync_result ?ft ?rg ?snap2"
  have run2: "syncDocument docs_get now2 userId documentId db1 =
     (Inr res2,
      db1\<lparr>segments := synced_table now2 ?ft ?rg ?snap2 (segments db1),
          documents := map (\<lambda>d. if doc_id d = documentId
                                then d\<lparr>last_synced_at := Some now2,
                                       doc_title := Some (gdoc_title driveDoc),
                                       doc_updated_at := now2\<rparr>
                                else d) (documents db1),
          sync_log := sync_log db1 @
            [log_row userId (Some documentId) ''single_sync'' ''success'' (ResultDetails res2)]\<rparr>)"
    unfolding res2_def by (rule syncDocument_fetched[OF found1 fetch1 ok2])
  have tbl2: "synced_table now2 ?ft ?rg ?snap2 (segments db1) = segments db1"
    unfolding synced_table_def no_change by simp
  have fields2: "status res2 = Success" "updated_segments res2 = 0"
    "repositioned_segments res2 = 0"
    "orphaned_segments res2 = map orphan_of (filter (\<lambda>x. ?rg (seg_id x) = None) ?snap2)"
    "conflicts res2 = map missing_conflict (filter (\<lambda>x. ?rg (seg_id x) = None) ?snap2)"
    unfolding res2_def sync_result_def no_text no_pos by simp_all
  have listed: "orphaned_segments res2 =
               map (\<lambda>s. \<lparr>orphan_id = seg_id s, orphan_title = seg_title s,
                          last_text = text_content s\<rparr>)
                 (filter (\<lambda>s. seg_document_id s = documentId \<and> ?rg (seg_id s) = None)
                    (segments db1))"
    unfolding fields2(4) by (simp add: orphan_of_def conj_commute cong: map_cong)
  have same_o: "orphaned_segments res2 = orphaned_segments res1"
    and same_c: "conflicts res2 = conflicts res1"
    unfolding fields2 orph eq1 sync_result_def by simp_all
  have none: "orphaned_segments res2 = [] \<longleftrightarrow>
                list_all (\<lambda>s. seg_document_id s \<noteq> documentId \<or> ?rg (seg_id s) \<noteq> None)
                  (segments db1)"
    unfolding listed by (auto simp add: filter_empty_conv list_all_iff)
  obtain db2 where run2': "syncDocument docs_get now2 userId documentId db1 = (Inr res2, db2)"
    and segs2: "segments db2 = segments db1"
    using run2 tbl2 by simp
  show ?thesis
    using run2' fields2(1,2,3) listed same_o same_c none segs2 by blast
qed

lemma ex_fetch_s1:
  "fetchDocument ex_get_s1 (google_file_id ex_document) =
     Inr (ex_drive_doc [(''cmms_segment_s1'', [[\<lparr>startIndex = Some 0, endIndex = Some 5\<rparr>]])])"
  by (simp add: fetchDocument_def ex_get_s1_def)

text \<open>
  The run the claim as worded gets wrong: the marker of \<open>s2\<close> is missing; the first
  run succeeds and reports \<open>s2\<close> as an orphan, and so does the second.
\<close>

theorem syncDocument_second_run_orphans_counterexample:
  "fst (syncDocument ex_get_s1 1 ''u1'' ''d1'' ex_db) =
     Inr \<lparr>status = Success, updated_segments = 0, repositioned_segments = 0,
          orphaned_segments = [\<lparr>orphan_id = ''s2'', orphan_title = None, last_text = ''world''\<rparr>],
          conflicts = [\<lparr>segment_id = ''s2'', ctype = marker_missing,
                        details = ''Named range not found in Google Doc''\<rparr>]\<rparr>
   \<and> orphaned_segments (projr (fst (syncDocument ex_get_s1 2 ''u1'' ''d1''
         (snd (syncDocument ex_get_s1 1 ''u1'' ''d1'' ex_db))))) =
       [\<lparr>orphan_id = ''s2'', orphan_title = None, last_text = ''world''\<rparr>]
   \<and> orphaned_segments (projr (fst (syncDocument ex_get_s1 2 ''u1'' ''d1''
         (snd (syncDocument ex_get_s1 1 ''u1'' ''d1'' ex_db))))) \<noteq> []"
  by code_simp

theorem syncDocument_second_run_witness:
  "find_document ''u1'' ''d1'' ex_db = [ex_document]
   \<and> fetchDocument ex_get_s1 (google_file_id ex_document) =
       Inr (ex_drive_doc [(''cmms_segment_s1'', [[\<lparr>startIndex = Some 0, endIndex = Some 5\<rparr>]])])
   \<and> syncDocument ex_get_s1 1 ''u1'' ''d1'' ex_db =
     (Inr (projr (fst (syncDocument ex_get_s1 1 ''u1'' ''d1'' ex_db))),
      snd (syncDocument ex_get_s1 1 ''u1'' ''d1'' ex_db))
   \<and> (\<exists>res2 db2. syncDocument ex_get_s1 2 ''u1'' ''d1''
                     (snd (syncDocument ex_get_s1 1 ''u1'' ''d1'' ex_db)) = (Inr res2, db2)
         \<and> status res2 = Success
         \<and> updated_segments res2 = 0 \<and> repositioned_segments res2 = 0
         \<and> orphaned_segments res2 =
             [\<lparr>orphan_id = ''s2'', orphan_title = None, last_text = ''world''\<rparr>]
         \<and> segments db2 = segments ex_db)"
proof -
  have run1: "syncDocument ex_get_s1 1 ''u1'' ''d1'' ex_db =
     (Inr (projr (fst (syncDocument ex_get_s1 1 ''u1'' ''d1'' ex_db))),
      snd (syncDocument ex_get_s1 1 ''u1'' ''d1'' ex_db))"
    by code_simp
  have r1: "orphaned_segments (projr (fst (syncDocument ex_get_s1 1 ''u1'' ''d1'' ex_db))) =
       [\<lparr>orphan_id = ''s2'', orphan_title = None, last_text = ''world''\<rparr>]"
    "segments (snd (syncDocument ex_get_s1 1 ''u1'' ''d1'' ex_db)) = segments ex_db"
    by code_simp+
  have "\<exists>res2 db2. syncDocument ex_get_s1 2 ''u1'' ''d1''
                     (snd (syncDocument ex_get_s1 1 ''u1'' ''d1'' ex_db)) = (Inr res2, db2)
         \<and> status res2 = Success
         \<and> updated_segments res2 = 0 \<and> repositioned_segments res2 = 0
         \<and> orphaned_segments res2 =
             [\<lparr>orphan_id = ''s2'', orphan_title = None, last_text = ''world''\<rparr>]
         \<and> segments db2 = segments ex_db"
    using syncDocument_second_run[OF ex_found ex_fetch_s1 run1, of 2] unfolding r1 by blast
  then show ?thesis using ex_found ex_fetch_s1 run1 by (intro conjI)
qed

text \<open>
  Claim C4. The document is found and fetched, and a stored segment of the document has
  no range among the fetched named ranges. When the database accepts the statements of
  the sync, \<open>syncDocument\<close> returns a result that lists the segment in
  \<open>orphaned_segments\<close> and as a \<open>marker_missing\<close> conflict; the sync deletes no segment
  row, and the rows with that identifier are as before. When the database rejects a
  statement, \<open>syncDocument\<close> throws and the transaction is rolled back: there is no
  result, and every segment row is as before.
\<close>

theorem syncDocument_orphan:
  assumes found: "find_document userId documentId db = doc # others"
    and fetch: "fetchDocument docs_get (google_file_id doc) = Inr driveDoc"
    and stored: "sg \<in> set (segments db)" and of_doc: "seg_document_id sg = documentId"
    and missing: "getCmmsNamedRanges driveDoc (seg_id sg) = None"
  shows "if storable driveDoc documentId db
         then (\<exists>res db'. syncDocument docs_get now userId documentId db = (Inr res, db')
                 \<and> \<lparr>orphan_id = seg_id sg, orphan_title = seg_title sg,
                      last_text = text_content sg\<rparr> \<in> set (orphaned_segments res)
                 \<and> \<lparr>segment_id = seg_id sg, ctype = marker_missing,
                      details = ''Named range not found in Google Doc''\<rparr> \<in> set (conflicts res)
                 \<and> sg \<in> set (segments db')
                 \<and> length (segments db') = length (segments db)
                 \<and> filter (\<lambda>row. seg_id row = seg_id sg) (segments db')
                     = filter (\<lambda>row. seg_id row = seg_id sg) (segments db))
         else (\<exists>e db'. syncDocument docs_get now userId documentId db = (Inl e, db')
                 \<and> segments db' = segments db)"
proof (cases "storable driveDoc documentId db")
  case False
  from syncDocument_unstorable[OF found fetch False, of now]
  obtain e db' where "syncDocument docs_get now userId documentId db = (Inl e, db')"
    and "segments db' = segments db"
    by simp
  then have "\<exists>e db'. syncDocument docs_get now userId documentId db = (Inl e, db')
                 \<and> segments db' = segments db"
    by blast
  then show ?thesis using False by (simp only: if_False)
next
  case True
  let ?ft = "body_text driveDoc"
  let ?rg = "getCmmsNamedRanges driveDoc"
  let ?snap = "filter (\<lambda>s. seg_document_id s = documentId) (segments db)"
  define F where "F = (\<lambda>row. if seg_id row \<in> changed_ids ?ft ?rg ?snap
                 then synced_row now ?ft ?rg row else row)"
  obtain res db' where run: "syncDocument docs_get now userId documentId db = (Inr res, db')"
    and res: "res = sync_result ?ft ?rg ?snap"
    and segs: "segments db' = map F (segments db)"
    using syncDocument_fetched[OF found fetch True, of now]
    by (simp add: synced_table_def F_def)
  have in_snap: "sg \<in> set (filter (\<lambda>x. ?rg (seg_id x) = None) ?snap)"
    using stored of_doc missing by simp
  have "orphan_of sg \<in> set (orphaned_segments res)"
    unfolding res sync_result_def using in_snap by simp
  then have o: "\<lparr>orphan_id = seg_id sg, orphan_title = seg_title sg,
                last_text = text_content sg\<rparr> \<in> set (orphaned_segments res)"
    by (simp add: orphan_of_def)
  have "missing_conflict sg \<in> set (conflicts res)"
    unfolding res sync_result_def using in_snap by simp
  then have c: "\<lparr>segment_id = seg_id sg, ctype = marker_missing,
                details = ''Named range not found in Google Doc''\<rparr> \<in> set (conflicts res)"
    by (simp add: missing_conflict_def)
  have keep: "F row = row" if "seg_id row = seg_id sg" for row
    using that missing by (simp add: F_def synced_row_def)
  have idF: "\<And>row. seg_id (F row) = seg_id row"
    by (simp add: F_def seg_id_synced_row)
  have "filter (\<lambda>row. seg_id row = seg_id sg) (map F (segments db))
        = map F (filter (\<lambda>row. seg_id row = seg_id sg) (segments db))"
    unfolding filter_map comp_def idF ..
  also have "\<dots> = filter (\<lambda>row. seg_id row = seg_id sg) (segments db)"
    by (rule map_idI) (simp add: keep)
  finally have rows: "filter (\<lambda>row. seg_id row = seg_id sg) (segments db')
               = filter (\<lambda>row. seg_id row = seg_id sg) (segments db)"
    unfolding segs .
  have "F sg \<in> set (segments db')" unfolding segs using stored by simp
  then have kept: "sg \<in> set (segments db')" using keep[of sg] by simp
  have len: "length (segments db') = length (segments db)" unfolding segs by simp
  have "\<exists>res db'. syncDocument docs_get now userId documentId db = (Inr res, db')
                 \<and> \<lparr>orphan_id = seg_id sg, orphan_title = seg_title sg,
                      last_text = text_content sg\<rparr> \<in> set (orphaned_segments res)
                 \<and> \<lparr>segment_id = seg_id sg, ctype = marker_missing,
                      details = ''Named range not found in Google Doc''\<rparr> \<in> set (conflicts res)
                 \<and> sg \<in> set (segments db')
                 \<and> length (segments db') = length (segments db)
                 \<and> filter (\<lambda>row. seg_id row = seg_id sg) (segments db')
                     = filter (\<lambda>row. seg_id row = seg_id sg) (segments db)"
    using run o c kept len rows by blast
  then show ?thesis using True by (simp only: if_True)
qed

theorem syncDocument_orphan_witness:
  "find_document ''u1'' ''d1'' ex_db = [ex_document]
   \<and> fetchDocument ex_get_s1 (google_file_id ex_document) =
       Inr (ex_drive_doc [(''cmms_segment_s1'', [[\<lparr>startIndex = Some 0, endIndex = Some 5\<rparr>]])])
   \<and> ex_segment ''s2'' 6 11 ''world'' \<in> set (segments ex_db)
   \<and> seg_document_id (ex_segment ''s2'' 6 11 ''world'') = ''d1''
   \<and> getCmmsNamedRanges
        (ex_drive_doc [(''cmms_segment_s1'', [[\<lparr>startIndex = Some 0, endIndex = Some 5\<rparr>]])])
        ''s2'' = None
   \<and> storable
        (ex_drive_doc [(''cmms_segment_s1'', [[\<lparr>startIndex = Some 0, endIndex = Some 5\<rparr>]])])
        ''d1'' ex_db
   \<and> (\<exists>res db'. syncDocument ex_get_s1 1 ''u1'' ''d1'' ex_db = (Inr res, db')
         \<and> \<lparr>orphan_id = ''s2'', orphan_title = None, last_text = ''world''\<rparr>
              \<in> set (orphaned_segments res)
         \<and> \<lparr>segment_id = ''s2'', ctype = marker_missing,
              details = ''Named range not found in Google Doc''\<rparr> \<in> set (conflicts res)
         \<and> ex_segment ''s2'' 6 11 ''world'' \<in> set (segments db')
         \<and> length (segments db') = 2)"
proof -
  let ?doc = "ex_drive_doc [(''cmms_segment_s1'', [[\<lparr>startIndex = Some 0, endIndex = Some 5\<rparr>]])]"
  let ?sg = "ex_segment ''s2'' 6 11 ''world''"
  have found: "find_document ''u1'' ''d1'' ex_db = ex_document # []"
    by (rule ex_found)
  have fetch: "fetchDocument ex_get_s1 (google_file_id ex_document) = Inr ?doc"
    by (rule ex_fetch_s1)
  have stored: "?sg \<in> set (segments ex_db)"
    by (simp add: ex_db_def)
  have of_doc: "seg_document_id ?sg = ''d1''"
    by (simp add: ex_segment_def)
  have missing: "getCmmsNamedRanges ?doc (seg_id ?sg) = None"
    by (simp add: getCmmsNamedRanges_def ex_drive_doc_def cmms_entry_def startsWith_def
        ex_segment_def)
  have ok: "storable ?doc ''d1'' ex_db"
    by code_simp
  have fields: "seg_id ?sg = ''s2''" "seg_title ?sg = None" "text_content ?sg = ''world''"
    "length (segments ex_db) = 2"
    by (simp_all add: ex_segment_def ex_db_def)
  note T = syncDocument_orphan[OF found fetch stored of_doc missing, of 1]
  have "\<exists>res db'. syncDocument ex_get_s1 1 ''u1'' ''d1'' ex_db = (Inr res, db')
         \<and> \<lparr>orphan_id = ''s2'', orphan_title = None, last_text = ''world''\<rparr>
              \<in> set (orphaned_segments res)
         \<and> \<lparr>segment_id = ''s2'', ctype = marker_missing,
              details = ''Named range not found in Google Doc''\<rparr> \<in> set (conflicts res)
         \<and> ex_segment ''s2'' 6 11 ''world'' \<in> set (segments db')
         \<and> length (segments db') = 2"
    using T ok unfolding fields by (simp only: if_True) blast
  then show ?thesis
    using found fetch stored of_doc missing[unfolded fields] ok by (intro conjI)
qed

text \<open>
  Claim C2, on the reconciliation path. The marker of \<open>s1\<close> has collapsed to the empty
  range from 3 to 3. \<open>syncDocument\<close> succeeds and stores it: the row of \<open>s1\<close> ends with
  \<open>start_offset = end_offset = 3\<close> and the empty text, so the table holds a row that
  does not satisfy \<open>end_offset > start_offset\<close>.
\<close>

theorem syncDocument_stores_empty_range:
  "fst (syncDocument ex_get_collapsed 1 ''u1'' ''d1'' ex_db) =
     Inr \<lparr>status = Success, updated_segments = 1, repositioned_segments = 0,
          orphaned_segments = [], conflicts = []\<rparr>
   \<and> map (\<lambda>s. (seg_id s, start_offset s, end_offset s, text_content s))
       (segments (snd (syncDocument ex_get_collapsed 1 ''u1'' ''d1'' ex_db)))
     = [(''s1'', 3, 3, []), (''s2'', 6, 11, ''world'')]
   \<and> \<not> list_all (\<lambda>s. end_offset s > start_offset s)
          (segments (snd (syncDocument ex_get_collapsed 1 ''u1'' ''d1'' ex_db)))"
  by code_simp

section \<open>Properties of the search predicates\<close>

lemma set_carried_tags:
  "set (carried_tags st ids s) = {t \<in> set ids. (seg_id s, t) \<in> set st}"
  by (auto simp add: carried_tags_def image_iff)

lemma holds_TagExists:
  "holds ts st s (TagExists ids) \<longleftrightarrow> (\<exists>t \<in> set ids. (seg_id s, t) \<in> set st)"
proof -
  have "carried_tags st ids s \<noteq> [] \<longleftrightarrow> set (carried_tags st ids s) \<noteq> {}"
    by simp
  then show ?thesis unfolding set_carried_tags by auto
qed

lemma holds_TagCountEq:
  "holds ts st s (TagCountEq ids k) \<longleftrightarrow> card {t \<in> set ids. (seg_id s, t) \<in> set st} = k"
  using set_carried_tags[of st ids s]
  by (simp add: length_remdups_card_conv)

lemma card_all_of_distinct:
  assumes "distinct ids"
  shows "card {t \<in> set ids. P t} = length ids \<longleftrightarrow> (\<forall>t \<in> set ids. P t)"
proof
  assume c: "card {t \<in> set ids. P t} = length ids"
  have sub: "{t \<in> set ids. P t} \<subseteq> set ids" by blast
  have "card {t \<in> set ids. P t} = card (set ids)"
    using c assms by (simp add: distinct_card)
  then have "{t \<in> set ids. P t} = set ids"
    using sub by (simp add: card_subset_eq)
  then show "\<forall>t \<in> set ids. P t" by blast
next
  assume "\<forall>t \<in> set ids. P t"
  then have "{t \<in> set ids. P t} = set ids" by blast
  then show "card {t \<in> set ids. P t} = length ids"
    using assms by (simp add: distinct_card)
qed

text \<open>
  Claim C8. With a tag filter \<open>T\<close> that is not empty, the main clause accepts a row
  exactly when the clause without the tag filter accepts it and, under \<open>OR\<close>, the segment
  carries at least one tag of \<open>T\<close>, or, under \<open>AND\<close> (also the default), the number of
  distinct tags of \<open>T\<close> it carries is the length of \<open>T\<close>; for a \<open>T\<close> without repeated
  entries that number is the length of \<open>T\<close> exactly when the segment carries every tag
  of \<open>T\<close>.
\<close>

theorem getBaseConditions_tag_filter:
  assumes "tag_ids filters = Some T" and "T \<noteq> []"
  shows "(where_holds ts st (getBaseConditions userId query filters NoFacet) s \<longleftrightarrow>
            where_holds ts st (getBaseConditions userId query (filters\<lparr>tag_ids := None\<rparr>) NoFacet) s
            \<and> (if tag_logic filters = Some LogicOR
               then (\<exists>t \<in> set T. (seg_id s, t) \<in> set st)
               else card {t \<in> set T. (seg_id s, t) \<in> set st} = length T))
         \<and> (distinct T \<longrightarrow>
              (card {t \<in> set T. (seg_id s, t) \<in> set st} = length T
                 \<longleftrightarrow> (\<forall>t \<in> set T. (seg_id s, t) \<in> set st)))"
proof -
  have tagged: "given (tag_ids filters) = T" and untagged: "given (tag_ids (filters\<lparr>tag_ids := None\<rparr>)) = []"
    using assms by (simp_all add: given_def)
  have main: "where_holds ts st (getBaseConditions userId query filters NoFacet) s \<longleftrightarrow>
            where_holds ts st (getBaseConditions userId query (filters\<lparr>tag_ids := None\<rparr>) NoFacet) s
            \<and> (if tag_logic filters = Some LogicOR
               then holds ts st s (TagExists T)
               else holds ts st s (TagCountEq T (length T)))"
    unfolding getBaseConditions_def where_holds_def tagged untagged
    using assms(2) by (simp del: holds.simps)
  show ?thesis
    using main card_all_of_distinct[of T "\<lambda>t. (seg_id s, t) \<in> set st"]
    unfolding holds_TagExists holds_TagCountEq by simp
qed

theorem getBaseConditions_tag_filter_witness:
  "tag_ids (no_filters\<lparr>tag_ids := Some [''A'', ''B'']\<rparr>) = Some [''A'', ''B'']
   \<and> [''A'', ''B''] \<noteq> ([] :: string list)
   \<and> distinct [''A'', ''B'']
   \<and> where_holds ts_any [(''s1'', ''A''), (''s1'', ''B''), (''s1'', ''C''), (''s2'', ''A'')]
        (getBaseConditions ''u1'' [] (no_filters\<lparr>tag_ids := Some [''A'', ''B'']\<rparr>) NoFacet)
        (ex_segment ''s1'' 0 5 ''hello'')
   \<and> \<not> where_holds ts_any [(''s1'', ''A''), (''s1'', ''B''), (''s1'', ''C''), (''s2'', ''A'')]
        (getBaseConditions ''u1'' [] (no_filters\<lparr>tag_ids := Some [''A'', ''B'']\<rparr>) NoFacet)
        (ex_segment ''s2'' 6 11 ''world'')
   \<and> where_holds ts_any [(''s1'', ''A''), (''s1'', ''B''), (''s1'', ''C''), (''s2'', ''A'')]
        (getBaseConditions ''u1'' []
           (no_filters\<lparr>tag_ids := Some [''A'', ''B''], tag_logic := Some LogicOR\<rparr>) NoFacet)
        (ex_segment ''s2'' 6 11 ''world'')"
proof -
  let ?st = "[(''s1'', ''A''), (''s1'', ''B''), (''s1'', ''C''), (''s2'', ''A'')]"
  let ?f = "no_filters\<lparr>tag_ids := Some [''A'', ''B'']\<rparr>"
  let ?g = "no_filters\<lparr>tag_ids := Some [''A'', ''B''], tag_logic := Some LogicOR\<rparr>"
  have f: "tag_ids ?f = Some [''A'', ''B'']" and g: "tag_ids ?g = Some [''A'', ''B'']"
    and ne: "[''A'', ''B''] \<noteq> ([] :: string list)" and d: "distinct [''A'', ''B'']"
    by simp_all
  have logic: "tag_logic ?f = None" "tag_logic ?g = Some LogicOR"
    by (simp_all add: no_filters_def)
  have rest: "where_holds ts_any ?st (getBaseConditions ''u1'' [] (?f\<lparr>tag_ids := None\<rparr>) NoFacet)
                (ex_segment sid a b content)"
    "where_holds ts_any ?st (getBaseConditions ''u1'' [] (?g\<lparr>tag_ids := None\<rparr>) NoFacet)
                (ex_segment sid a b content)" for sid a b content
    by (simp_all add: where_holds_def getBaseConditions_def no_filters_def given_def has_query_def
        ex_segment_def)
  let ?s1 = "ex_segment ''s1'' 0 5 ''hello''"
  let ?s2 = "ex_segment ''s2'' 6 11 ''world''"
  have ids: "seg_id ?s1 = ''s1''" "seg_id ?s2 = ''s2''"
    by (simp_all add: ex_segment_def)
  note T1 = getBaseConditions_tag_filter[OF f ne, of ts_any ?st "''u1''" "[]" ?s1]
  note T2 = getBaseConditions_tag_filter[OF f ne, of ts_any ?st "''u1''" "[]" ?s2]
  note T3 = getBaseConditions_tag_filter[OF g ne, of ts_any ?st "''u1''" "[]" ?s2]
  have all1: "\<forall>t \<in> set [''A'', ''B'']. (seg_id ?s1, t) \<in> set ?st"
    and not_all2: "\<not> (\<forall>t \<in> set [''A'', ''B'']. (seg_id ?s2, t) \<in> set ?st)"
    and some2: "\<exists>t \<in> set [''A'', ''B'']. (seg_id ?s2, t) \<in> set ?st"
    unfolding ids by simp_all
  have c1: "card {t \<in> set [''A'', ''B'']. (seg_id ?s1, t) \<in> set ?st} = length [''A'', ''B'']"
    using T1[THEN conjunct2, THEN mp, OF d] all1 by blast
  have c2: "card {t \<in> set [''A'', ''B'']. (seg_id ?s2, t) \<in> set ?st} \<noteq> length [''A'', ''B'']"
    using T2[THEN conjunct2, THEN mp, OF d] not_all2 by blast
  have "where_holds ts_any ?st (getBaseConditions ''u1'' [] ?f NoFacet) ?s1 \<longleftrightarrow>
        where_holds ts_any ?st (getBaseConditions ''u1'' [] (?f\<lparr>tag_ids := None\<rparr>) NoFacet) ?s1
        \<and> card {t \<in> set [''A'', ''B'']. (seg_id ?s1, t) \<in> set ?st} = length [''A'', ''B'']"
    using T1[THEN conjunct1] unfolding logic by (simp only: option.distinct if_False)
  then have s1: "where_holds ts_any ?st (getBaseConditions ''u1'' [] ?f NoFacet) ?s1"
    using rest(1) c1 by blast
  have "where_holds ts_any ?st (getBaseConditions ''u1'' [] ?f NoFacet) ?s2 \<longleftrightarrow>
        where_holds ts_any ?st (getBaseConditions ''u1'' [] (?f\<lparr>tag_ids := None\<rparr>) NoFacet) ?s2
        \<and> card {t \<in> set [''A'', ''B'']. (seg_id ?s2, t) \<in> set ?st} = length [''A'', ''B'']"
    using T2[THEN conjunct1] unfolding logic by (simp only: option.distinct if_False)
  then have s2: "\<not> where_holds ts_any ?st (getBaseConditions ''u1'' [] ?f NoFacet) ?s2"
    using c2 by blast
  have "where_holds ts_any ?st (getBaseConditions ''u1'' [] ?g NoFacet) ?s2 \<longleftrightarrow>
        where_holds ts_any ?st (getBaseConditions ''u1'' [] (?g\<lparr>tag_ids := None\<rparr>) NoFacet) ?s2
        \<and> (\<exists>t \<in> set [''A'', ''B'']. (seg_id ?s2, t) \<in> set ?st)"
    using T3[THEN conjunct1] unfolding logic by (simp only: simp_thms if_True)
  then have s2or: "where_holds ts_any ?st (getBaseConditions ''u1'' [] ?g NoFacet) ?s2"
    using rest(2) some2 by blast
  show ?thesis using f ne d s1 s2 s2or by blast
qed

text \<open>
  Where the facet clause and the main clause without the facet's own filter do agree:
  when the filters carry no bound of the date range and the tag filter, if any, is
  under \<open>OR\<close>.
\<close>

lemma generateFacetWhere_agrees:
  assumes "date_range filters = None
             \<or> date_range filters = Some \<lparr>dr_start = None, dr_end = None\<rparr>"
    and "given (tag_ids filters) = [] \<or> tag_logic filters = Some LogicOR"
  shows "where_holds ts st (generateFacetWhere userId query filters fc) s
           = where_holds ts st (getBaseConditions userId query filters fc) s"
proof -
  have dates: "(case date_range filters of
          None \<Rightarrow> []
        | Some dr \<Rightarrow>
            (case dr_start dr of None \<Rightarrow> [] | Some t \<Rightarrow> [CreatedGe t])
            @ (case dr_end dr of None \<Rightarrow> [] | Some t \<Rightarrow> [CreatedLe t])) = []"
    using assms(1) by auto
  have tagged: "(if given (tag_ids filters) \<noteq> [] \<and> fc \<noteq> TagsFacet
        then (if tag_logic filters = Some LogicOR
              then [TagExists (given (tag_ids filters))]
              else [TagCountEq (given (tag_ids filters)) (length (given (tag_ids filters)))])
        else [])
      = (if fc \<noteq> TagsFacet \<and> given (tag_ids filters) \<noteq> []
        then [TagExists (given (tag_ids filters))] else [])"
    using assms(2) by auto
  have cats: "(if given (category_ids filters) \<noteq> [] \<and> fc \<noteq> CategoryFacet
        then [CategoryAny (given (category_ids filters))] else [])
      = (if fc \<noteq> CategoryFacet \<and> given (category_ids filters) \<noteq> []
        then [CategoryAny (given (category_ids filters))] else [])"
    by auto
  have shuffle: "list_all P (a @ b @ c @ d @ e @ [] @ f) = list_all P (a @ b @ d @ e @ c @ f)"
    for P :: "condition \<Rightarrow> bool" and a b c d e f
    by auto
  show ?thesis
    unfolding generateFacetWhere_def getBaseConditions_def where_holds_def dates tagged cats
    by (rule shuffle[symmetric])
qed

text \<open>
  Claim C1, at two requests. With a date range from time 100 on and no other filter, a
  segment created at time 50 is not in the listing (the total is 0), yet the clauses of
  both facets have no condition on \<open>created_at\<close> where the main clause without the
  facet's own filter has one, and both facets count the segment. With the tag filter
  \<open>t1\<close>, \<open>t2\<close> under \<open>AND\<close>, a segment tagged \<open>t1\<close> only is not in the listing, yet the
  clause of the category facet asks for one of the tags where the main clause asks for
  both, and the category facet counts the segment.
\<close>

theorem generateFacetWhere_drops_filters:
  "search_total ts_any search_db ''u1'' []
       (no_filters\<lparr>date_range := Some \<lparr>dr_start = Some 100, dr_end = None\<rparr>\<rparr>) = 0
   \<and> getBaseConditions ''u1'' []
       (no_filters\<lparr>date_range := Some \<lparr>dr_start = Some 100, dr_end = None\<rparr>\<rparr>) CategoryFacet
     = [UserIdEq ''u1'', CreatedGe 100]
   \<and> generateFacetWhere ''u1'' []
       (no_filters\<lparr>date_range := Some \<lparr>dr_start = Some 100, dr_end = None\<rparr>\<rparr>) CategoryFacet
     = [UserIdEq ''u1'']
   \<and> catFacetCount ts_any search_db ''u1'' []
       (no_filters\<lparr>date_range := Some \<lparr>dr_start = Some 100, dr_end = None\<rparr>\<rparr>) ''c1'' = 1
   \<and> getBaseConditions ''u1'' []
       (no_filters\<lparr>date_range := Some \<lparr>dr_start = Some 100, dr_end = None\<rparr>\<rparr>) TagsFacet
     = [UserIdEq ''u1'', CreatedGe 100]
   \<and> generateFacetWhere ''u1'' []
       (no_filters\<lparr>date_range := Some \<lparr>dr_start = Some 100, dr_end = None\<rparr>\<rparr>) TagsFacet
     = [UserIdEq ''u1'']
   \<and> tagFacetCount ts_any search_db ''u1'' []
       (no_filters\<lparr>date_range := Some \<lparr>dr_start = Some 100, dr_end = None\<rparr>\<rparr>) ''t1'' = 1
   \<and> search_total ts_any search_db ''u1'' [] (no_filters\<lparr>tag_ids := Some [''t1'', ''t2'']\<rparr>) = 0
   \<and> getBaseConditions ''u1'' [] (no_filters\<lparr>tag_ids := Some [''t1'', ''t2'']\<rparr>) CategoryFacet
     = [UserIdEq ''u1'', TagCountEq [''t1'', ''t2''] 2]
   \<and> generateFacetWhere ''u1'' [] (no_filters\<lparr>tag_ids := Some [''t1'', ''t2'']\<rparr>) CategoryFacet
     = [UserIdEq ''u1'', TagExists [''t1'', ''t2'']]
   \<and> catFacetCount ts_any search_db ''u1'' []
       (no_filters\<lparr>tag_ids := Some [''t1'', ''t2'']\<rparr>) ''c1'' = 1"
  by code_simp

text \<open>A query of no-break spaces and other Unicode white space has no text condition.\<close>

lemma has_query_unicode_space:
  "\<not> has_query [0xA0, 0x2003, 0x3000, 0xFEFF] \<and> has_query [0x20, 0x61]"
  by code_simp

section \<open>Properties of colour assignment and segment creation\<close>

lemma first_elem_Some_mem: "first_elem xs = Some x \<Longrightarrow> x \<in> set xs"
  by (cases xs) (simp_all add: first_elem_def)

lemma first_elem_nonempty: "xs \<noteq> [] \<Longrightarrow> \<exists>x. first_elem xs = Some x"
  by (cases xs) (simp_all add: first_elem_def)

lemma first_elem_insort_key:
  "first_elem (insort_key f x ys) =
     (case first_elem ys of
        None \<Rightarrow> Some x
      | Some y \<Rightarrow> if f x \<le> f y then Some x else Some y)"
  by (cases ys) (simp_all add: first_elem_def)

text \<open>
  The first element of a stable sort by a key: the element of least key, and among
  those of least key the first of the list.
\<close>

lemma first_elem_sort_key:
  fixes f :: "'a \<Rightarrow> int"
  assumes "xs \<noteq> []"
  shows "\<exists>i < length xs. first_elem (sort_key f xs) = Some (xs ! i)
           \<and> (\<forall>j < length xs. f (xs ! i) \<le> f (xs ! j))
           \<and> (\<forall>j < i. f (xs ! i) < f (xs ! j))"
  using assms
proof (induction xs)
  case Nil
  then show ?case by simp
next
  case (Cons x xs)
  show ?case
  proof (cases "xs = []")
    case True
    then show ?thesis by (simp add: first_elem_def)
  next
    case False
    from Cons.IH[OF False] obtain i where i: "i < length xs"
      and fst: "first_elem (sort_key f xs) = Some (xs ! i)"
      and least: "\<forall>j < length xs. f (xs ! i) \<le> f (xs ! j)"
      and first: "\<forall>j < i. f (xs ! i) < f (xs ! j)"
      by blast
    show ?thesis
    proof (cases "f x \<le> f (xs ! i)")
      case True
      have "first_elem (sort_key f (x # xs)) = Some ((x # xs) ! 0)"
        using True fst by (simp add: first_elem_insort_key)
      moreover have "\<forall>j < length (x # xs). f ((x # xs) ! 0) \<le> f ((x # xs) ! j)"
      proof (intro allI impI)
        fix j assume "j < length (x # xs)"
        then show "f ((x # xs) ! 0) \<le> f ((x # xs) ! j)"
          using True least by (cases j) (auto intro: order_trans)
      qed
      ultimately show ?thesis by (intro exI[of _ 0]) simp
    next
      case False
      have "first_elem (sort_key f (x # xs)) = Some ((x # xs) ! Suc i)"
        using False fst by (simp add: first_elem_insort_key)
      moreover have "\<forall>j < length (x # xs). f ((x # xs) ! Suc i) \<le> f ((x # xs) ! j)"
      proof (intro allI impI)
        fix j assume "j < length (x # xs)"
        then show "f ((x # xs) ! Suc i) \<le> f ((x # xs) ! j)"
          using False least by (cases j) auto
      qed
      moreover have "\<forall>j < Suc i. f ((x # xs) ! Suc i) < f ((x # xs) ! j)"
      proof (intro allI impI)
        fix j assume "j < Suc i"
        then show "f ((x # xs) ! Suc i) < f ((x # xs) ! j)"
          using False first by (cases j) auto
      qed
      ultimately show ?thesis using i by (intro exI[of _ "Suc i"]) simp
    qed
  qed
qed

lemma assignColor_db: "srv_db (snd (assignColor srv u d)) = srv_db srv"
  by (simp add: assignColor_def Let_def split: option.splits)

lemma assignColor_available:
  assumes "filter (\<lambda>c. c \<notin> usedInDoc (srv_db srv) u d) (load_palette srv u) \<noteq> []"
  shows "\<exists>c. assignColor srv u d = (Some c, srv) \<and> c \<in> set (load_palette srv u)
              \<and> c \<notin> usedInDoc (srv_db srv) u d"
proof -
  let ?av = "filter (\<lambda>c. c \<notin> usedInDoc (srv_db srv) u d) (load_palette srv u)"
  let ?sorted = "sort_key (lastUsed_time (srv_db srv) u) ?av"
  have "?sorted \<noteq> []" using assms by (metis length_sort length_0_conv)
  then obtain c where c: "first_elem ?sorted = Some c"
    using first_elem_nonempty by blast
  then have "c \<in> set ?av" using first_elem_Some_mem[OF c] by simp
  then have "c \<in> set (load_palette srv u)" "c \<notin> usedInDoc (srv_db srv) u d" by simp_all
  moreover have "assignColor srv u d = (Some c, srv)"
    using assms c by (simp add: assignColor_def Let_def)
  ultimately show ?thesis by blast
qed

lemma assignColor_exhausted:
  assumes "filter (\<lambda>c. c \<notin> usedInDoc (srv_db srv) u d) (load_palette srv u) = []"
  shows "fst (assignColor srv u d)
           = first_elem (sort_key (global_count (srv_db srv) u) (load_palette srv u))"
  using assms by (simp add: assignColor_def Let_def)

lemma recordColorUsage_fields:
  "segments (recordColorUsage now u c d) = segments d"
  "user_preferences (recordColorUsage now u c d) = user_preferences d"
  "segment_tags (recordColorUsage now u c d) = segment_tags d"
  "tags (recordColorUsage now u c d) = tags d"
  by (simp_all add: recordColorUsage_def)

lemma insert_segment_tags_fields:
  assumes "insert_segment_tags sid ts d = Inr d'"
  shows "segments d' = segments d" "user_preferences d' = user_preferences d"
    "color_usage d' = color_usage d"
  using assms by (auto simp add: insert_segment_tags_def split: if_splits)

lemma insert_segment_row:
  assumes "insert_segment uuid now u dto title col d = Inr (sg, d')"
  shows "col = Some (color sg)" "seg_document_id sg = dto_document_id dto" "seg_user_id sg = u"
    "seg_id sg \<notin> seg_id ` set (segments d)"
    "segments d' = segments d @ [sg]" "user_preferences d' = user_preferences d"
    "color_usage d' = color_usage d"
    "start_offset sg = dto_start_offset dto" "end_offset sg = dto_end_offset dto"
  using assms
  by (auto simp add: insert_segment_def Let_def split: option.splits if_splits)

lemma getSegmentById_new:
  assumes "segments d = old @ [sg]" and "seg_id sg \<notin> seg_id ` set old" and "seg_user_id sg = u"
  shows "getSegmentById d u (seg_id sg) = Some sg"
proof -
  have "filter (\<lambda>s. seg_id s = seg_id sg \<and> seg_user_id s = u) old = []"
    using assms(2) by (simp only: filter_empty_conv) (metis imageI)
  then show ?thesis using assms(1,3) by (simp add: getSegmentById_def first_elem_def)
qed

text \<open>
  A successful \<open>createSegment\<close> without a colour in the request: the colour is the one
  \<open>assignColor\<close> selects, the new row is appended, and its usage is recorded.
\<close>

lemma createSegment_auto:
  assumes run: "createSegment uuid srv now u dto = (Inr r, srv')"
    and auto: "dto_color dto = None"
  shows "\<exists>sg. r = Some sg
           \<and> fst (assignColor srv u (dto_document_id dto)) = Some (color sg)
           \<and> seg_document_id sg = dto_document_id dto \<and> seg_user_id sg = u
           \<and> segments (srv_db srv') = segments (srv_db srv) @ [sg]
           \<and> user_preferences (srv_db srv') = user_preferences (srv_db srv)
           \<and> color_usage (srv_db srv')
               = color_usage (recordColorUsage now u (color sg) (srv_db srv))
           \<and> DEFAULT_PALETTE srv' = DEFAULT_PALETTE (snd (assignColor srv u (dto_document_id dto)))"
proof -
  obtain col srv1 where ac: "assignColor srv u (dto_document_id dto) = (col, srv1)"
    by (cases "assignColor srv u (dto_document_id dto)")
  have db1: "srv_db srv1 = srv_db srv"
    using assignColor_db[of srv u "dto_document_id dto"] ac by simp
  let ?title = "(case dto_title dto of
                     None \<Rightarrow> substring (dto_text_content dto) 0 50
                   | Some t \<Rightarrow> if t \<noteq> [] then t else substring (dto_text_content dto) 0 50)"
  have unfolded: "createSegment uuid srv now u dto =
     (case insert_segment uuid now u dto ?title col (srv_db srv1) of
           Inl e \<Rightarrow> (Inl e, srv1)
         | Inr (sg, d1) \<Rightarrow>
             (let d2 = recordColorUsage now u (color sg) d1
              in if given (dto_tag_ids dto) \<noteq> [] then
                   (case insert_segment_tags (seg_id sg) (given (dto_tag_ids dto)) d2 of
                      Inl e \<Rightarrow> (Inl e, srv1\<lparr>srv_db := d2\<rparr>)
                    | Inr d3 \<Rightarrow> (Inr (getSegmentById d3 u (seg_id sg)), srv1\<lparr>srv_db := d3\<rparr>))
                 else (Inr (getSegmentById d2 u (seg_id sg)), srv1\<lparr>srv_db := d2\<rparr>)))"
    using ac auto by (simp add: createSegment_def Let_def)
  obtain sg d1 where ins: "insert_segment uuid now u dto ?title col (srv_db srv1) = Inr (sg, d1)"
    using run unfolding unfolded
    by (cases "insert_segment uuid now u dto ?title col (srv_db srv1)") auto
  note row = insert_segment_row[OF ins]
  let ?d2 = "recordColorUsage now u (color sg) d1"
  have segs2: "segments ?d2 = segments (srv_db srv) @ [sg]"
    using row(5) db1 by (simp add: recordColorUsage_fields)
  have usage2: "color_usage ?d2 = color_usage (recordColorUsage now u (color sg) (srv_db srv))"
    using row(7) db1 by (simp add: recordColorUsage_def)
  have prefs2: "user_preferences ?d2 = user_preferences (srv_db srv)"
    using row(6) db1 by (simp add: recordColorUsage_fields)
  have fresh_id: "seg_id sg \<notin> seg_id ` set (segments (srv_db srv))"
    using row(4) db1 by simp
  have pal: "DEFAULT_PALETTE srv1 = DEFAULT_PALETTE (snd (assignColor srv u (dto_document_id dto)))"
    and col: "fst (assignColor srv u (dto_document_id dto)) = Some (color sg)"
    using ac row(1) by simp_all
  show ?thesis
  proof (cases "given (dto_tag_ids dto) \<noteq> []")
    case False
    then have res: "r = getSegmentById ?d2 u (seg_id sg)" and srv': "srv' = srv1\<lparr>srv_db := ?d2\<rparr>"
      using run unfolding unfolded ins by (simp_all add: Let_def)
    have "r = Some sg"
      unfolding res using getSegmentById_new[OF segs2 fresh_id row(3)] .
    then show ?thesis
      using col row(2,3) segs2 prefs2 usage2 pal by (simp add: srv')
  next
    case True
    then obtain d3 where tg: "insert_segment_tags (seg_id sg) (given (dto_tag_ids dto)) ?d2 = Inr d3"
      and res: "r = getSegmentById d3 u (seg_id sg)" and srv': "srv' = srv1\<lparr>srv_db := d3\<rparr>"
      using run unfolding unfolded ins
      by (cases "insert_segment_tags (seg_id sg) (given (dto_tag_ids dto)) ?d2")
         (simp_all add: Let_def)
    note keep = insert_segment_tags_fields[OF tg]
    have segs3: "segments d3 = segments (srv_db srv) @ [sg]"
      using keep(1) segs2 by simp
    have "r = Some sg"
      unfolding res using getSegmentById_new[OF segs3 fresh_id row(3)] .
    then show ?thesis
      using col row(2,3) segs3 prefs2 usage2 pal keep by (simp add: srv')
  qed
qed

lemma load_palette_cong:
  assumes "user_preferences (srv_db srv') = user_preferences (srv_db srv)"
    and "DEFAULT_PALETTE srv' = DEFAULT_PALETTE srv"
  shows "load_palette srv' u = load_palette srv u"
proof -
  have "user_palette srv' u = user_palette srv u"
    by (simp add: user_palette_def assms(1))
  then show ?thesis by (simp add: load_palette_def assms(2) split: option.splits)
qed

lemma usedInDoc_append:
  assumes "segments d' = segments d @ [sg]" and "seg_document_id sg = doc" and "seg_user_id sg = u"
  shows "usedInDoc d' u doc = insert (color sg) (usedInDoc d u doc)"
  using assms by (auto simp add: usedInDoc_def)

lemma createSegments_length:
  "length (fst (createSegments uuid srv u reqs)) = length reqs"
proof (induction reqs arbitrary: srv)
  case Nil
  then show ?case by simp
next
  case (Cons a reqs)
  then show ?case by (cases a) (simp add: split_beta)
qed

lemma createSegments_append:
  "createSegments uuid srv u (xs @ ys) =
     (fst (createSegments uuid srv u xs)
        @ fst (createSegments uuid (snd (createSegments uuid srv u xs)) u ys),
      snd (createSegments uuid (snd (createSegments uuid srv u xs)) u ys))"
proof (induction xs arbitrary: srv)
  case Nil
  then show ?case by simp
next
  case (Cons a xs)
  then show ?case by (cases a) (simp add: split_beta)
qed

text \<open>
  While the palette has more colours than the document uses, each created segment gets
  a palette colour the document does not use yet.
\<close>

lemma createSegments_fresh_colors:
  assumes "createSegments uuid srv u reqs = (map (\<lambda>sg. Inr (Some sg)) segs, srv')"
    and "list_all (\<lambda>(now, dto). dto_document_id dto = d \<and> dto_color dto = None) reqs"
    and "distinct (load_palette srv u)"
    and "usedInDoc (srv_db srv) u d \<subseteq> set (load_palette srv u)"
    and "card (usedInDoc (srv_db srv) u d) + length reqs \<le> length (load_palette srv u)"
  shows "distinct (map color segs)
         \<and> set (map color segs) \<inter> usedInDoc (srv_db srv) u d = {}
         \<and> set (map color segs) \<subseteq> set (load_palette srv u)
         \<and> usedInDoc (srv_db srv') u d = usedInDoc (srv_db srv) u d \<union> set (map color segs)
         \<and> load_palette srv' u = load_palette srv u
         \<and> length segs = length reqs"
  using assms
proof (induction reqs arbitrary: srv segs)
  case Nil
  then show ?case by simp
next
  case (Cons req rest)
  obtain now dto where req: "req = (now, dto)" by (cases req)
  obtain r srv1 where step: "createSegment uuid srv now u dto = (r, srv1)"
    by (cases "createSegment uuid srv now u dto")
  obtain rs srv2 where tail: "createSegments uuid srv1 u rest = (rs, srv2)"
    by (cases "createSegments uuid srv1 u rest")
  have all: "r # rs = map (\<lambda>sg. Inr (Some sg)) segs" and srv': "srv2 = srv'"
    using Cons.prems(1) step tail req by simp_all
  then obtain sg segs' where segs: "segs = sg # segs'" and r: "r = Inr (Some sg)"
    and rs: "rs = map (\<lambda>sg. Inr (Some sg)) segs'"
    by (cases segs) auto
  have dto: "dto_document_id dto = d" "dto_color dto = None"
    and rest_ok: "list_all (\<lambda>(now, dto). dto_document_id dto = d \<and> dto_color dto = None) rest"
    using Cons.prems(2) req by simp_all
  let ?p = "load_palette srv u"
  let ?U = "usedInDoc (srv_db srv) u d"
  have finU: "finite ?U" using Cons.prems(4) finite_subset by blast
  have "card ?U < length ?p" using Cons.prems(5) by simp
  then have "card ?U < card (set ?p)" using Cons.prems(3) by (simp add: distinct_card)
  then have "?U \<noteq> set ?p" by auto
  then obtain c0 where "c0 \<in> set ?p" "c0 \<notin> ?U" using Cons.prems(4) by blast
  then have avail: "filter (\<lambda>c. c \<notin> ?U) ?p \<noteq> []"
    by (auto simp add: filter_empty_conv)
  from assignColor_available[OF avail] obtain c where
    ac: "assignColor srv u d = (Some c, srv)" and cp: "c \<in> set ?p" and cU: "c \<notin> ?U"
    by blast
  from createSegment_auto[OF step[unfolded r] dto(2)] obtain sg' where
    "Some sg = Some sg'" and col: "fst (assignColor srv u (dto_document_id dto)) = Some (color sg')"
    and loc: "seg_document_id sg' = dto_document_id dto" "seg_user_id sg' = u"
    and segs1: "segments (srv_db srv1) = segments (srv_db srv) @ [sg']"
    and prefs1: "user_preferences (srv_db srv1) = user_preferences (srv_db srv)"
    and pal1: "DEFAULT_PALETTE srv1 = DEFAULT_PALETTE (snd (assignColor srv u (dto_document_id dto)))"
    by blast
  then have sg': "sg' = sg" by simp
  have csg: "color sg = c" using col ac dto(1) sg' by simp
  have p1: "load_palette srv1 u = ?p"
    using load_palette_cong[OF prefs1] pal1 ac dto(1) by simp
  have U1: "usedInDoc (srv_db srv1) u d = insert c ?U"
    using usedInDoc_append[OF segs1] loc dto(1) csg sg' by simp
  have card1: "card (usedInDoc (srv_db srv1) u d) = Suc (card ?U)"
    unfolding U1 using finU cU by simp
  have IH: "distinct (map color segs')
         \<and> set (map color segs') \<inter> usedInDoc (srv_db srv1) u d = {}
         \<and> set (map color segs') \<subseteq> set (load_palette srv1 u)
         \<and> usedInDoc (srv_db srv') u d = usedInDoc (srv_db srv1) u d \<union> set (map color segs')
         \<and> load_palette srv' u = load_palette srv1 u
         \<and> length segs' = length rest"
  proof (rule Cons.IH)
    show "createSegments uuid srv1 u rest = (map (\<lambda>sg. Inr (Some sg)) segs', srv')"
      using tail rs srv' by simp
    show "list_all (\<lambda>(now, dto). dto_document_id dto = d \<and> dto_color dto = None) rest"
      by (rule rest_ok)
    show "distinct (load_palette srv1 u)" unfolding p1 by (rule Cons.prems(3))
    show "usedInDoc (srv_db srv1) u d \<subseteq> set (load_palette srv1 u)"
      unfolding p1 U1 using cp Cons.prems(4) by simp
    show "card (usedInDoc (srv_db srv1) u d) + length rest \<le> length (load_palette srv1 u)"
      unfolding p1 card1 using Cons.prems(5) by simp
  qed
  show ?case
    unfolding segs using IH cp cU csg unfolding p1 U1 by auto
qed

text \<open>
  What holds of the array the calls find. A user creates \<open>N + 1\<close> segments in a document
  that holds none of the user's segments, every request without a colour and every call
  successful, and the palette in use at the first call has \<open>N\<close> different colours. Then
  the first \<open>N\<close> segments have \<open>N\<close> different colours, which are the colours of that
  palette, and the last segment has the colour whose usage count, as recorded before
  that call, is the lowest, the earliest such colour in the order in which the first
  call found the palette. For a user without a stored palette that order is the one
  earlier calls left in \<open>DEFAULT_PALETTE\<close>.
\<close>

lemma createSegments_current_palette:
  assumes fresh: "usedInDoc (srv_db srv) u d = {}"
    and pal: "distinct (load_palette srv u)"
    and len: "length reqs = Suc (length (load_palette srv u))"
    and auto: "list_all (\<lambda>(now, dto). dto_document_id dto = d \<and> dto_color dto = None) reqs"
    and run: "createSegments uuid srv u reqs = (map (\<lambda>sg. Inr (Some sg)) segs, srv')"
  shows "distinct (map color (butlast segs))
         \<and> length (butlast segs) = length (load_palette srv u)
         \<and> set (map color (butlast segs)) = set (load_palette srv u)
         \<and> (\<exists>i < length (load_palette srv u).
               color (last segs) = load_palette srv u ! i
               \<and> (\<forall>j < length (load_palette srv u).
                     global_count (srv_db (snd (createSegments uuid srv u (butlast reqs)))) u
                       (load_palette srv u ! i)
                     \<le> global_count (srv_db (snd (createSegments uuid srv u (butlast reqs)))) u
                       (load_palette srv u ! j))
               \<and> (\<forall>j < i.
                     global_count (srv_db (snd (createSegments uuid srv u (butlast reqs)))) u
                       (load_palette srv u ! i)
                     < global_count (srv_db (snd (createSegments uuid srv u (butlast reqs)))) u
                       (load_palette srv u ! j)))"
proof -
  let ?p = "load_palette srv u"
  let ?front = "butlast reqs"
  have reqs_ne: "reqs \<noteq> []" using len by auto
  then have reqs: "reqs = ?front @ [last reqs]" by simp
  obtain now dto where lst: "last reqs = (now, dto)" by (cases "last reqs")
  let ?srvN = "snd (createSegments uuid srv u ?front)"
  have lens: "length segs = length reqs"
    using createSegments_length[of uuid srv u reqs] run by simp
  then have segs_ne: "segs \<noteq> []" using reqs_ne by auto
  then have segs: "segs = butlast segs @ [last segs]" by simp
  have split: "createSegments uuid srv u (?front @ [(now, dto)]) =
     (fst (createSegments uuid srv u ?front) @ fst (createSegments uuid ?srvN u [(now, dto)]),
      snd (createSegments uuid ?srvN u [(now, dto)]))"
    by (rule createSegments_append)
  have "createSegments uuid srv u reqs = createSegments uuid srv u (?front @ [(now, dto)])"
    using reqs lst by metis
  then have run': "createSegments uuid srv u (?front @ [(now, dto)])
                     = (map (\<lambda>sg. Inr (Some sg)) segs, srv')"
    using run by simp
  have "map (\<lambda>sg. Inr (Some sg) :: js_error + segment option) segs
          = map (\<lambda>sg. Inr (Some sg)) (butlast segs @ [last segs])"
    by (rule arg_cong[OF segs])
  then have mapped: "map (\<lambda>sg. Inr (Some sg) :: js_error + segment option) segs
          = map (\<lambda>sg. Inr (Some sg)) (butlast segs) @ [Inr (Some (last segs))]"
    by simp
  have total: "fst (createSegments uuid srv u ?front) @ fst (createSegments uuid ?srvN u [(now, dto)])
                 = map (\<lambda>sg. Inr (Some sg)) (butlast segs) @ [Inr (Some (last segs))]"
    and srv': "snd (createSegments uuid ?srvN u [(now, dto)]) = srv'"
    using run' mapped unfolding split by simp_all
  have lfront: "length (fst (createSegments uuid srv u ?front)) = length (butlast segs)"
    using createSegments_length[of uuid srv u ?front] lens by simp
  have front: "fst (createSegments uuid srv u ?front) = map (\<lambda>sg. Inr (Some sg)) (butlast segs)"
    and tail_run: "fst (createSegments uuid ?srvN u [(now, dto)]) = [Inr (Some (last segs))]"
    using total lfront by simp_all
  have runN: "createSegments uuid srv u ?front = (map (\<lambda>sg. Inr (Some sg)) (butlast segs), ?srvN)"
    using front by (simp add: prod_eq_iff)
  have autoN: "list_all (\<lambda>(now, dto). dto_document_id dto = d \<and> dto_color dto = None) ?front"
    and dto: "dto_document_id dto = d" "dto_color dto = None"
  proof -
    have "list_all (\<lambda>(now, dto). dto_document_id dto = d \<and> dto_color dto = None)
            (?front @ [(now, dto)])"
      using auto reqs lst by metis
    then show "list_all (\<lambda>(now, dto). dto_document_id dto = d \<and> dto_color dto = None) ?front"
      and "dto_document_id dto = d" and "dto_color dto = None"
      by simp_all
  qed
  have "distinct (map color (butlast segs))
         \<and> set (map color (butlast segs)) \<inter> usedInDoc (srv_db srv) u d = {}
         \<and> set (map color (butlast segs)) \<subseteq> set ?p
         \<and> usedInDoc (srv_db ?srvN) u d = usedInDoc (srv_db srv) u d \<union> set (map color (butlast segs))
         \<and> load_palette ?srvN u = ?p
         \<and> length (butlast segs) = length ?front"
    by (rule createSegments_fresh_colors[OF runN autoN pal]) (simp_all add: fresh len)
  then have dist: "distinct (map color (butlast segs))"
    and sub: "set (map color (butlast segs)) \<subseteq> set ?p"
    and usedN: "usedInDoc (srv_db ?srvN) u d = set (map color (butlast segs))"
    and palN: "load_palette ?srvN u = ?p"
    and lenN: "length (butlast segs) = length ?p"
    using fresh len by simp_all
  have "card (set (map color (butlast segs))) = length (map color (butlast segs))"
    using dist by (rule distinct_card)
  moreover have "card (set ?p) = length ?p"
    using pal by (rule distinct_card)
  ultimately have "card (set (map color (butlast segs))) = card (set ?p)"
    using lenN by simp
  then have all_used: "set (map color (butlast segs)) = set ?p"
    using sub by (simp add: card_subset_eq)
  have exhausted: "filter (\<lambda>c. c \<notin> usedInDoc (srv_db ?srvN) u d) (load_palette ?srvN u) = []"
    unfolding usedN palN all_used by (simp add: filter_empty_conv)
  obtain r srvL where last_run: "createSegment uuid ?srvN now u dto = (r, srvL)"
    by (cases "createSegment uuid ?srvN now u dto")
  then have r: "r = Inr (Some (last segs))" using tail_run by simp
  from createSegment_auto[OF last_run[unfolded r] dto(2)]
  have "fst (assignColor ?srvN u d) = Some (color (last segs))"
    using dto(1) by auto
  then have chosen: "first_elem (sort_key (global_count (srv_db ?srvN) u) ?p) = Some (color (last segs))"
    using assignColor_exhausted[OF exhausted] palN by simp
  then have "?p \<noteq> []" by (auto simp add: first_elem_def)
  from first_elem_sort_key[OF this, of "global_count (srv_db ?srvN) u"] chosen
  have least: "\<exists>i < length ?p.
               color (last segs) = ?p ! i
               \<and> (\<forall>j < length ?p. global_count (srv_db ?srvN) u (?p ! i)
                                      \<le> global_count (srv_db ?srvN) u (?p ! j))
               \<and> (\<forall>j < i. global_count (srv_db ?srvN) u (?p ! i)
                             < global_count (srv_db ?srvN) u (?p ! j))"
    by auto
  show ?thesis using dist lenN all_used least by blast
qed

lemma two_color_step1:
  "createSegment ex_uuid two_color_server 10 ''u1'' (ex_dto None)
     = (Inr (Some (created_segment ''new'' ''#222222'' 10)),
        two_color_state [created_segment ''new'' ''#222222'' 10]
          [usage_row ''#111111'' 3 4, usage_row ''#222222'' 10 1] 1)"
  by code_simp

lemma two_color_step2:
  "createSegment ex_uuid
     (two_color_state [created_segment ''new'' ''#222222'' 10]
          [usage_row ''#111111'' 3 4, usage_row ''#222222'' 10 1] 1)
     11 ''u1'' (ex_dto None)
     = (Inr (Some (created_segment ''newx'' ''#111111'' 11)),
        two_color_state
          [created_segment ''new'' ''#222222'' 10, created_segment ''newx'' ''#111111'' 11]
          [usage_row ''#111111'' 11 5, usage_row ''#222222'' 10 1] 2)"
  by code_simp

lemma two_color_step3:
  "createSegment ex_uuid
     (two_color_state
          [created_segment ''new'' ''#222222'' 10, created_segment ''newx'' ''#111111'' 11]
          [usage_row ''#111111'' 11 5, usage_row ''#222222'' 10 1] 2)
     12 ''u1'' (ex_dto None)
     = (Inr (Some (created_segment ''newxx'' ''#222222'' 12)),
        two_color_state
          [created_segment ''new'' ''#222222'' 10, created_segment ''newx'' ''#111111'' 11,
           created_segment ''newxx'' ''#222222'' 12]
          [usage_row ''#111111'' 11 5, usage_row ''#222222'' 12 2] 3)"
  by code_simp

lemma two_color_run:
  "usedInDoc (srv_db two_color_server) ''u1'' ''d1'' = {}
   \<and> load_palette two_color_server ''u1'' = [''#111111'', ''#222222'']
   \<and> length three_requests = 3
   \<and> fst (createSegments ex_uuid two_color_server ''u1'' three_requests)
       = map (\<lambda>sg. Inr (Some sg)) three_created
   \<and> map color three_created = [''#222222'', ''#111111'', ''#222222'']
   \<and> distinct (map color (butlast three_created))
   \<and> set (map color (butlast three_created)) = set [''#111111'', ''#222222'']
   \<and> (\<exists>i < 2. color (last three_created) = [''#111111'', ''#222222''] ! i)"
proof -
  have fresh: "usedInDoc (srv_db two_color_server) ''u1'' ''d1'' = {}"
    by (simp add: usedInDoc_def two_color_server_def two_color_state_def)
  have p: "load_palette two_color_server ''u1'' = [''#111111'', ''#222222'']"
    by code_simp
  have pal: "distinct (load_palette two_color_server ''u1'')"
    unfolding p by simp
  have len: "length three_requests = Suc (length (load_palette two_color_server ''u1''))"
    unfolding p by (simp add: three_requests_def)
  have auto: "list_all (\<lambda>(now, dto). dto_document_id dto = ''d1'' \<and> dto_color dto = None)
                three_requests"
    by (simp add: three_requests_def ex_dto_def)
  have run: "createSegments ex_uuid two_color_server ''u1'' three_requests
       = (map (\<lambda>sg. Inr (Some sg)) three_created,
          two_color_state
          [created_segment ''new'' ''#222222'' 10, created_segment ''newx'' ''#111111'' 11,
           created_segment ''newxx'' ''#222222'' 12]
          [usage_row ''#111111'' 11 5, usage_row ''#222222'' 12 2] 3)"
    by (simp only: three_requests_def three_created_def createSegments.simps two_color_step1
        two_color_step2 two_color_step3 prod.case list.map)
  have cols: "map color three_created = [''#222222'', ''#111111'', ''#222222'']"
    by (simp add: three_created_def created_segment_def)
  note T = createSegments_current_palette[OF fresh pal len auto run]
  have d: "distinct (map color (butlast three_created))"
    using T by (rule conjunct1)
  have s: "set (map color (butlast three_created)) = set [''#111111'', ''#222222'']"
    using T[THEN conjunct2, THEN conjunct2, THEN conjunct1] unfolding p .
  have "\<exists>i < length [''#111111'', ''#222222''].
          color (last three_created) = [''#111111'', ''#222222''] ! i"
    using T[THEN conjunct2, THEN conjunct2, THEN conjunct2] unfolding p by blast
  then have e: "\<exists>i < 2. color (last three_created) = [''#111111'', ''#222222''] ! i"
    by (simp add: numeral_2_eq_2)
  have l3: "length three_requests = 3"
    by (simp add: three_requests_def)
  have res: "fst (createSegments ex_uuid two_color_server ''u1'' three_requests)
       = map (\<lambda>sg. Inr (Some sg)) three_created"
    unfolding run by (rule fst_conv)
  show ?thesis
    using fresh p l3 res cols d s e by (intro conjI)
qed

text \<open>
  Claim C6, at a request whose tag does not exist. The \<open>INSERT\<close> into \<open>segment_tags\<close> is
  rejected and \<open>createSegment\<close> throws, after the segment row and the colour usage row
  were committed: both are in the database the call leaves, which is not the database
  it started from.
\<close>

theorem createSegment_keeps_segment_on_tag_failure:
  "fst (createSegment ex_uuid ex_server 5 ''u1'' (ex_dto (Some [''t9''])))
     = Inl (pg_error ''insert violates foreign key constraint'')
   \<and> map seg_id (segments (srv_db ex_server)) = [''s1'', ''s2'']
   \<and> map seg_id (segments (srv_db (snd (createSegment ex_uuid ex_server 5 ''u1''
                                          (ex_dto (Some [''t9'']))))))
       = [''s1'', ''s2'', ''new'']
   \<and> segment_tags (srv_db (snd (createSegment ex_uuid ex_server 5 ''u1''
                                  (ex_dto (Some [''t9'']))))) = []
   \<and> color_usage (srv_db ex_server) = []
   \<and> color_usage (srv_db (snd (createSegment ex_uuid ex_server 5 ''u1''
                                 (ex_dto (Some [''t9''])))))
       = [\<lparr>cu_user_id = ''u1'', cu_color = ''#81C784'', last_used_at = 5, usage_count = 1\<rparr>]"
  by code_simp

text \<open>
  A run of requests whose calls are known one by one: the outcomes and the server after
  the last.
\<close>

lemma createSegments_steps:
  assumes "\<And>k. k < n \<Longrightarrow>
             createSegment uuid (st (j + k)) (t (j + k)) u dto
               = (Inr (Some (sg (j + k))), st (Suc (j + k)))"
  shows "createSegments uuid (st j) u (map (\<lambda>k. (t k, dto)) [j..<j + n])
           = (map (\<lambda>k. Inr (Some (sg k))) [j..<j + n], st (j + n))"
  using assms
proof (induction n arbitrary: j)
  case 0
  then show ?case by simp
next
  case (Suc n)
  have first: "createSegment uuid (st j) (t j) u dto = (Inr (Some (sg j)), st (Suc j))"
    using Suc.prems[of 0] by simp
  have rest: "createSegments uuid (st (Suc j)) u (map (\<lambda>k. (t k, dto)) [Suc j..<Suc j + n])
                = (map (\<lambda>k. Inr (Some (sg k))) [Suc j..<Suc j + n], st (Suc j + n))"
  proof (rule Suc.IH)
    fix k assume "k < n"
    then show "createSegment uuid (st (Suc j + k)) (t (Suc j + k)) u dto
                 = (Inr (Some (sg (Suc j + k))), st (Suc (Suc j + k)))"
      using Suc.prems[of "Suc k"] by simp
  qed
  have split: "[j..<j + Suc n] = j # [Suc j..<Suc j + n]"
    by (simp add: upt_conv_Cons)
  show ?case
    unfolding split list.map createSegments.simps first prod.case rest by simp
qed

text \<open>
  The calls of the concrete run, one by one: the eleven creations of \<open>u1\<close> in \<open>d1\<close>, the
  twelfth, and the eleven creations of \<open>u2\<close> in \<open>d2\<close>, once on the server the twelfth
  call leaves and once on a server whose array \<open>DEFAULT_PALETTE\<close> is as the module
  declares it.
\<close>

lemma first_user_steps:
  "createSegment ex_uuid (first_user_state 0) 1 ''u1'' (auto_dto ''d1'')
     = (Inr (Some (first_user_segment 0)), first_user_state 1)"
  "createSegment ex_uuid (first_user_state 1) 2 ''u1'' (auto_dto ''d1'')
     = (Inr (Some (first_user_segment 1)), first_user_state 2)"
  "createSegment ex_uuid (first_user_state 2) 3 ''u1'' (auto_dto ''d1'')
     = (Inr (Some (first_user_segment 2)), first_user_state 3)"
  "createSegment ex_uuid (first_user_state 3) 4 ''u1'' (auto_dto ''d1'')
     = (Inr (Some (first_user_segment 3)), first_user_state 4)"
  "createSegment ex_uuid (first_user_state 4) 5 ''u1'' (auto_dto ''d1'')
     = (Inr (Some (first_user_segment 4)), first_user_state 5)"
  "createSegment ex_uuid (first_user_state 5) 6 ''u1'' (auto_dto ''d1'')
     = (Inr (Some (first_user_segment 5)), first_user_state 6)"
  "createSegment ex_uuid (first_user_state 6) 7 ''u1'' (auto_dto ''d1'')
     = (Inr (Some (first_user_segment 6)), first_user_state 7)"
  "createSegment ex_uuid (first_user_state 7) 8 ''u1'' (auto_dto ''d1'')
     = (Inr (Some (first_user_segment 7)), first_user_state 8)"
  "createSegment ex_uuid (first_user_state 8) 9 ''u1'' (auto_dto ''d1'')
     = (Inr (Some (first_user_segment 8)), first_user_state 9)"
  "createSegment ex_uuid (first_user_state 9) 10 ''u1'' (auto_dto ''d1'')
     = (Inr (Some (first_user_segment 9)), first_user_state 10)"
  "createSegment ex_uuid (first_user_state 10) 11 ''u1'' (auto_dto ''d1'')
     = (Inr (Some (first_user_segment 10)), first_user_state 11)"
  by code_simp+

lemma shared_step_u1:
  "createSegment ex_uuid shared_server 12 ''u1'' (auto_dto ''d1'')
     = (Inr (Some (auto_segment (ex_uuid 11) ''u1'' ''d1'' ''#81C784'' 12)),
        shared_state sorted_palette 0)"
  by code_simp

lemma shared_steps_sorted:
  "createSegment ex_uuid (shared_state sorted_palette 0) 21 ''u2'' (auto_dto ''d2'')
     = (Inr (Some (shared_segment sorted_palette 0)), shared_state sorted_palette 1)"
  "createSegment ex_uuid (shared_state sorted_palette 1) 22 ''u2'' (auto_dto ''d2'')
     = (Inr (Some (shared_segment sorted_palette 1)), shared_state sorted_palette 2)"
  "createSegment ex_uuid (shared_state sorted_palette 2) 23 ''u2'' (auto_dto ''d2'')
     = (Inr (Some (shared_segment sorted_palette 2)), shared_state sorted_palette 3)"
  "createSegment ex_uuid (shared_state sorted_palette 3) 24 ''u2'' (auto_dto ''d2'')
     = (Inr (Some (shared_segment sorted_palette 3)), shared_state sorted_palette 4)"
  "createSegment ex_uuid (shared_state sorted_palette 4) 25 ''u2'' (auto_dto ''d2'')
     = (Inr (Some (shared_segment sorted_palette 4)), shared_state sorted_palette 5)"
  "createSegment ex_uuid (shared_state sorted_palette 5) 26 ''u2'' (auto_dto ''d2'')
     = (Inr (Some (shared_segment sorted_palette 5)), shared_state sorted_palette 6)"
  "createSegment ex_uuid (shared_state sorted_palette 6) 27 ''u2'' (auto_dto ''d2'')
     = (Inr (Some (shared_segment sorted_palette 6)), shared_state sorted_palette 7)"
  "createSegment ex_uuid (shared_state sorted_palette 7) 28 ''u2'' (auto_dto ''d2'')
     = (Inr (Some (shared_segment sorted_palette 7)), shared_state sorted_palette 8)"
  "createSegment ex_uuid (shared_state sorted_palette 8) 29 ''u2'' (auto_dto ''d2'')
     = (Inr (Some (shared_segment sorted_palette 8)), shared_state sorted_palette 9)"
  "createSegment ex_uuid (shared_state sorted_palette 9) 30 ''u2'' (auto_dto ''d2'')
     = (Inr (Some (shared_segment sorted_palette 9)), shared_state sorted_palette 10)"
  "createSegment ex_uuid (shared_state sorted_palette 10) 31 ''u2'' (auto_dto ''d2'')
     = (Inr (Some (shared_segment sorted_palette 10)), shared_state sorted_palette 11)"
  by code_simp+

lemma shared_steps_declared:
  "createSegment ex_uuid (shared_state DEFAULT_PALETTE_initial 0) 21 ''u2'' (auto_dto ''d2'')
     = (Inr (Some (shared_segment DEFAULT_PALETTE_initial 0)), shared_state DEFAULT_PALETTE_initial 1)"
  "createSegment ex_uuid (shared_state DEFAULT_PALETTE_initial 1) 22 ''u2'' (auto_dto ''d2'')
     = (Inr (Some (shared_segment DEFAULT_PALETTE_initial 1)), shared_state DEFAULT_PALETTE_initial 2)"
  "createSegment ex_uuid (shared_state DEFAULT_PALETTE_initial 2) 23 ''u2'' (auto_dto ''d2'')
     = (Inr (Some (shared_segment DEFAULT_PALETTE_initial 2)), shared_state DEFAULT_PALETTE_initial 3)"
  "createSegment ex_uuid (shared_state DEFAULT_PALETTE_initial 3) 24 ''u2'' (auto_dto ''d2'')
     = (Inr (Some (shared_segment DEFAULT_PALETTE_initial 3)), shared_state DEFAULT_PALETTE_initial 4)"
  "createSegment ex_uuid (shared_state DEFAULT_PALETTE_initial 4) 25 ''u2'' (auto_dto ''d2'')
     = (Inr (Some (shared_segment DEFAULT_PALETTE_initial 4)), shared_state DEFAULT_PALETTE_initial 5)"
  "createSegment ex_uuid (shared_state DEFAULT_PALETTE_initial 5) 26 ''u2'' (auto_dto ''d2'')
     = (Inr (Some (shared_segment DEFAULT_PALETTE_initial 5)), shared_state DEFAULT_PALETTE_initial 6)"
  "createSegment ex_uuid (shared_state DEFAULT_PALETTE_initial 6) 27 ''u2'' (auto_dto ''d2'')
     = (Inr (Some (shared_segment DEFAULT_PALETTE_initial 6)), shared_state DEFAULT_PALETTE_initial 7)"
  "createSegment ex_uuid (shared_state DEFAULT_PALETTE_initial 7) 28 ''u2'' (auto_dto ''d2'')
     = (Inr (Some (shared_segment DEFAULT_PALETTE_initial 7)), shared_state DEFAULT_PALETTE_initial 8)"
  "createSegment ex_uuid (shared_state DEFAULT_PALETTE_initial 8) 29 ''u2'' (auto_dto ''d2'')
     = (Inr (Some (shared_segment DEFAULT_PALETTE_initial 8)), shared_state DEFAULT_PALETTE_initial 9)"
  "createSegment ex_uuid (shared_state DEFAULT_PALETTE_initial 9) 30 ''u2'' (auto_dto ''d2'')
     = (Inr (Some (shared_segment DEFAULT_PALETTE_initial 9)), shared_state DEFAULT_PALETTE_initial 10)"
  "createSegment ex_uuid (shared_state DEFAULT_PALETTE_initial 10) 31 ''u2'' (auto_dto ''d2'')
     = (Inr (Some (shared_segment DEFAULT_PALETTE_initial 10)), shared_state DEFAULT_PALETTE_initial 11)"
  by code_simp+

lemma shared_run:
  assumes steps: "\<And>k. k < 11 \<Longrightarrow>
      createSegment ex_uuid (shared_state pal k) (21 + int k) ''u2'' (auto_dto ''d2'')
        = (Inr (Some (shared_segment pal k)), shared_state pal (Suc k))"
  shows "createSegments ex_uuid (shared_state pal 0) ''u2'' shared_requests
           = (map (\<lambda>j. Inr (Some (shared_segment pal j))) [0..<11], shared_state pal 11)"
    and "snd (createSegments ex_uuid (shared_state pal 0) ''u2'' (butlast shared_requests))
           = shared_state pal 10"
proof -
  have all: "createSegments ex_uuid (shared_state pal 0) ''u2''
               (map (\<lambda>k. (21 + int k, auto_dto ''d2'')) [0..<0 + n])
             = (map (\<lambda>k. Inr (Some (shared_segment pal k))) [0..<0 + n], shared_state pal (0 + n))"
    if "n \<le> 11" for n
    by (rule createSegments_steps) (use that steps in simp)
  show "createSegments ex_uuid (shared_state pal 0) ''u2'' shared_requests
           = (map (\<lambda>j. Inr (Some (shared_segment pal j))) [0..<11], shared_state pal 11)"
    using all[of 11] by (simp add: shared_requests_def)
  have front: "butlast shared_requests = map (\<lambda>k. (21 + int k, auto_dto ''d2'')) [0..<10]"
  proof -
    have "[0..<11] = [0..<10] @ [10::nat]" by code_simp
    then have "butlast [0..<11::nat] = [0..<10]" by (simp only: butlast_snoc)
    then show ?thesis by (simp add: shared_requests_def map_butlast[symmetric])
  qed
  show "snd (createSegments ex_uuid (shared_state pal 0) ''u2'' (butlast shared_requests))
           = shared_state pal 10"
    unfolding front using all[of 10] by simp
qed

lemma below_eleven:
  assumes "k < (11::nat)"
  shows "k = 0 \<or> k = 1 \<or> k = 2 \<or> k = 3 \<or> k = 4 \<or> k = 5 \<or> k = 6 \<or> k = 7 \<or> k = 8
         \<or> k = 9 \<or> k = 10"
  using assms by arith

text \<open>
  Claim C7, at a run that breaks it. Users \<open>u1\<close> and \<open>u2\<close> have no stored palette, so
  the palette of each is the array \<open>DEFAULT_PALETTE\<close> of ten colours. On a server where
  no document holds a segment, \<open>u1\<close> creates eleven segments in \<open>d1\<close> and then a twelfth:
  that call finds every colour used in the document and sorts the array in place, which
  leaves it in another order. Then \<open>u2\<close> creates eleven segments in the document \<open>d2\<close>,
  which holds none. The first ten get the ten colours. Before the eleventh call every
  colour has the usage count 1 for \<open>u2\<close>, so the colour of lowest count, ties broken by
  palette order, is the first colour of the palette, \<open>#E57373\<close>: that is what the
  eleventh segment gets when the array is as the module declares it, on the same
  database. On the server that the call of \<open>u1\<close> left, it gets \<open>#81C784\<close>.
\<close>

theorem assignColor_sorts_DEFAULT_PALETTE:
  "segments (srv_db (first_user_state 0)) = []
   \<and> color_usage (srv_db (first_user_state 0)) = []
   \<and> DEFAULT_PALETTE (first_user_state 0) = DEFAULT_PALETTE_initial
   \<and> createSegments ex_uuid (first_user_state 0) ''u1'' first_user_requests
       = (map (\<lambda>j. Inr (Some (first_user_segment j))) [0..<11], shared_server)
   \<and> DEFAULT_PALETTE shared_server = DEFAULT_PALETTE_initial
   \<and> createSegment ex_uuid shared_server 12 ''u1'' (auto_dto ''d1'')
       = (Inr (Some (auto_segment (ex_uuid 11) ''u1'' ''d1'' ''#81C784'' 12)),
          shared_state sorted_palette 0)
   \<and> DEFAULT_PALETTE (shared_state sorted_palette 0)
       = [''#81C784'', ''#64B5F6'', ''#FFD54F'', ''#BA68C8'', ''#4DB6AC'',
          ''#FF8A65'', ''#A1887F'', ''#90A4AE'', ''#F06292'', ''#E57373'']
   \<and> user_palette (shared_state sorted_palette 0) ''u2'' = None
   \<and> load_palette (shared_state sorted_palette 0) ''u2'' = sorted_palette
   \<and> usedInDoc (srv_db (shared_state sorted_palette 0)) ''u2'' ''d2'' = {}
   \<and> createSegments ex_uuid (shared_state sorted_palette 0) ''u2'' shared_requests
       = (map (\<lambda>j. Inr (Some (shared_segment sorted_palette j))) [0..<11],
          shared_state sorted_palette 11)
   \<and> map (\<lambda>j. color (shared_segment sorted_palette j)) [0..<11]
       = [''#81C784'', ''#64B5F6'', ''#FFD54F'', ''#BA68C8'', ''#4DB6AC'',
          ''#FF8A65'', ''#A1887F'', ''#90A4AE'', ''#F06292'', ''#E57373'', ''#81C784'']
   \<and> snd (createSegments ex_uuid (shared_state sorted_palette 0) ''u2''
             (butlast shared_requests)) = shared_state sorted_palette 10
   \<and> map (global_count (srv_db (shared_state sorted_palette 10)) ''u2'') DEFAULT_PALETTE_initial
       = [1, 1, 1, 1, 1, 1, 1, 1, 1, 1]
   \<and> srv_db (shared_state DEFAULT_PALETTE_initial 0) = srv_db (shared_state sorted_palette 0)
   \<and> createSegments ex_uuid (shared_state DEFAULT_PALETTE_initial 0) ''u2'' shared_requests
       = (map (\<lambda>j. Inr (Some (shared_segment DEFAULT_PALETTE_initial j))) [0..<11],
          shared_state DEFAULT_PALETTE_initial 11)
   \<and> map (\<lambda>j. color (shared_segment DEFAULT_PALETTE_initial j)) [0..<11]
       = [''#E57373'', ''#81C784'', ''#64B5F6'', ''#FFD54F'', ''#BA68C8'', ''#4DB6AC'',
          ''#FF8A65'', ''#A1887F'', ''#90A4AE'', ''#F06292'', ''#E57373'']"
proof -
  have first_steps: "createSegment ex_uuid (first_user_state (0 + k)) (1 + int (0 + k)) ''u1''
           (auto_dto ''d1'')
        = (Inr (Some (first_user_segment (0 + k))), first_user_state (Suc (0 + k)))"
    if "k < 11" for k
    using below_eleven[OF that] first_user_steps by (elim disjE) (simp_all add: eval_nat_numeral)
  have sorted_steps: "createSegment ex_uuid (shared_state sorted_palette k) (21 + int k) ''u2''
           (auto_dto ''d2'')
        = (Inr (Some (shared_segment sorted_palette k)), shared_state sorted_palette (Suc k))"
    if "k < 11" for k
    using below_eleven[OF that] shared_steps_sorted by (elim disjE) (simp_all add: eval_nat_numeral)
  have declared_steps: "createSegment ex_uuid (shared_state DEFAULT_PALETTE_initial k)
           (21 + int k) ''u2'' (auto_dto ''d2'')
        = (Inr (Some (shared_segment DEFAULT_PALETTE_initial k)),
           shared_state DEFAULT_PALETTE_initial (Suc k))"
    if "k < 11" for k
    using below_eleven[OF that] shared_steps_declared by (elim disjE) (simp_all add: eval_nat_numeral)
  have z: "segments (srv_db (first_user_state 0)) = []"
    "color_usage (srv_db (first_user_state 0)) = []"
    "DEFAULT_PALETTE (first_user_state 0) = DEFAULT_PALETTE_initial"
    by (simp_all add: first_user_state_def first_user_usage_def)
  have "createSegments ex_uuid (first_user_state 0) ''u1''
          (map (\<lambda>k. (1 + int k, auto_dto ''d1'')) [0..<0 + 11])
        = (map (\<lambda>k. Inr (Some (first_user_segment k))) [0..<0 + 11], first_user_state (0 + 11))"
    by (rule createSegments_steps) (rule first_steps)
  then have y: "createSegments ex_uuid (first_user_state 0) ''u1'' first_user_requests
       = (map (\<lambda>j. Inr (Some (first_user_segment j))) [0..<11], shared_server)"
    by (simp add: first_user_requests_def shared_server_def)
  have a: "DEFAULT_PALETTE shared_server = DEFAULT_PALETTE_initial"
    by (simp add: shared_server_def first_user_state_def)
  have p: "DEFAULT_PALETTE (shared_state sorted_palette 0)
       = [''#81C784'', ''#64B5F6'', ''#FFD54F'', ''#BA68C8'', ''#4DB6AC'',
          ''#FF8A65'', ''#A1887F'', ''#90A4AE'', ''#F06292'', ''#E57373'']"
    by (simp add: shared_state_def sorted_palette_def)
  have b: "user_palette (shared_state sorted_palette 0) ''u2'' = None"
    by (simp add: user_palette_def shared_state_def shared_server_def first_user_state_def)
  have c: "load_palette (shared_state sorted_palette 0) ''u2'' = sorted_palette"
    by (simp add: load_palette_def b) (simp add: shared_state_def)
  have d: "usedInDoc (srv_db (shared_state sorted_palette 0)) ''u2'' ''d2'' = {}"
    by code_simp
  have e: "map (\<lambda>j. color (shared_segment sorted_palette j)) [0..<11]
       = [''#81C784'', ''#64B5F6'', ''#FFD54F'', ''#BA68C8'', ''#4DB6AC'',
          ''#FF8A65'', ''#A1887F'', ''#90A4AE'', ''#F06292'', ''#E57373'', ''#81C784'']"
    by code_simp
  have f: "map (global_count (srv_db (shared_state sorted_palette 10)) ''u2'')
             DEFAULT_PALETTE_initial = [1, 1, 1, 1, 1, 1, 1, 1, 1, 1]"
    by code_simp
  have g: "srv_db (shared_state DEFAULT_PALETTE_initial 0) = srv_db (shared_state sorted_palette 0)"
    by (simp add: shared_state_def)
  have h: "map (\<lambda>j. color (shared_segment DEFAULT_PALETTE_initial j)) [0..<11]
       = [''#E57373'', ''#81C784'', ''#64B5F6'', ''#FFD54F'', ''#BA68C8'', ''#4DB6AC'',
          ''#FF8A65'', ''#A1887F'', ''#90A4AE'', ''#F06292'', ''#E57373'']"
    by code_simp
  show ?thesis
    using z y a shared_step_u1 p b c d shared_run(1)[OF sorted_steps] e
      shared_run(2)[OF sorted_steps] f g shared_run(1)[OF declared_steps] h
    by (intro conjI)
qed

section \<open>Properties of document registration\<close>

lemma find_registered_set_active:
  "find_registered u g (set_active v now i d)
     = map (\<lambda>row. if doc_id row = i then row\<lparr>is_active := v, doc_updated_at := now\<rparr> else row)
         (find_registered u g d)"
  by (simp add: find_registered_def set_active_def filter_map comp_def)

lemma set_active_length: "length (documents (set_active v now i d)) = length (documents d)"
  by (simp add: set_active_def)

lemma set_active_ids: "map doc_id (documents (set_active v now i d)) = map doc_id (documents d)"
  by (simp add: set_active_def comp_def)

lemma insert_document_row:
  assumes "insert_document uuid now u g meta d = Inr (row, d1)"
  shows "documents d1 = documents d @ [row]" "doc_user_id row = u" "google_file_id row = g"
    "is_active row" "find_registered u g d = []" "doc_id row \<notin> doc_id ` set (documents d)"
    "users d1 = users d" "segments d1 = segments d"
    "doc_id row = uuid (uuid_counter d)" "uuid_counter d1 = Suc (uuid_counter d)"
  using assms
  by (auto simp add: insert_document_def Let_def split: if_splits)

text \<open>The two exits of \<open>registerDocument\<close> when a row of the user has the file.\<close>

lemma registerDocument_found:
  assumes "find_registered (user_id usr) (dto_google_file_id dto) d = existing # others"
  shows "registerDocument drv uuid now usr dto d =
           (Inr existing,
            if is_active existing then d else set_active True now (doc_id existing) d)"
  using assms by (simp add: registerDocument_def)

text \<open>What the call leaves when no row of the user has the file.\<close>

lemma registerDocument_new:
  assumes none: "find_registered (user_id usr) (dto_google_file_id dto) d = []"
    and run: "registerDocument drv uuid now usr dto d = (Inr newDoc, d1)"
  shows "documents d1 = documents d @ [newDoc]" "doc_user_id newDoc = user_id usr"
    "is_active newDoc"
    "copy_to_folder dto \<noteq> Some True \<longrightarrow> google_file_id newDoc = dto_google_file_id dto"
proof -
  obtain fileId where cp: "copy_if_requested drv usr dto = Inr fileId"
    using run none by (auto simp add: registerDocument_def split: sum.splits)
  obtain meta where mt: "getFileMetadata drv fileId = Inr meta"
    using run none cp by (auto simp add: registerDocument_def split: sum.splits)
  obtain row d' where ins: "insert_document uuid now (user_id usr) fileId meta d = Inr (row, d')"
    using run none cp mt by (auto simp add: registerDocument_def split: sum.splits)
  have res: "newDoc = row" "d1 = d'"
    using run none cp mt ins by (auto simp add: registerDocument_def split: option.splits)
  note row = insert_document_row[OF ins]
  show "documents d1 = documents d @ [newDoc]" "doc_user_id newDoc = user_id usr"
    "is_active newDoc"
    using row res by simp_all
  show "copy_to_folder dto \<noteq> Some True \<longrightarrow> google_file_id newDoc = dto_google_file_id dto"
    using cp row(3) res by (auto simp add: copy_if_requested_def)
qed

lemma registerDocument_grows:
  "length (documents (snd (registerDocument drv uuid now usr dto d))) \<le> Suc (length (documents d))"
  by (auto simp add: registerDocument_def set_active_length
        split: list.splits sum.splits option.splits dest: insert_document_row(1))

text \<open>
  Claim C10. When a row of the user has the file, \<open>registerDocument\<close> returns the first
  such row as it was read, inserts nothing, and leaves the table as it was but for the
  row's \<open>is_active\<close>, set to true (with \<open>updated_at\<close>) when it was false, so that the
  registered row is active afterwards. When no row has the file, a returned document
  is a new active row of the user appended to the table. The table changes its length
  only when no row had the file, and a second call with the same request (no copy asked
  for) returns the row of the first call and changes nothing.
\<close>

theorem registerDocument_idempotent:
  "(\<forall>existing others.
      find_registered (user_id usr) (dto_google_file_id dto) d = existing # others \<longrightarrow>
        registerDocument drv uuid now usr dto d
          = (Inr existing,
             if is_active existing then d else set_active True now (doc_id existing) d)
        \<and> length (documents (snd (registerDocument drv uuid now usr dto d)))
            = length (documents d)
        \<and> map doc_id (documents (snd (registerDocument drv uuid now usr dto d)))
            = map doc_id (documents d)
        \<and> map (\<lambda>row. (doc_id row, is_active row))
             (take 1 (find_registered (user_id usr) (dto_google_file_id dto)
                        (snd (registerDocument drv uuid now usr dto d))))
            = [(doc_id existing, True)])
   \<and> (\<forall>newDoc d1.
        find_registered (user_id usr) (dto_google_file_id dto) d = []
        \<and> registerDocument drv uuid now usr dto d = (Inr newDoc, d1) \<longrightarrow>
          documents d1 = documents d @ [newDoc] \<and> doc_user_id newDoc = user_id usr
          \<and> is_active newDoc)
   \<and> (length (documents (snd (registerDocument drv uuid now usr dto d)))
         \<noteq> length (documents d) \<longrightarrow>
        find_registered (user_id usr) (dto_google_file_id dto) d = [])
   \<and> (\<forall>r d1.
        registerDocument drv uuid now usr dto d = (Inr r, d1)
        \<and> copy_to_folder dto \<noteq> Some True \<longrightarrow>
          (\<exists>r'. registerDocument drv2 uuid2 now2 usr dto d1 = (Inr r', d1)
                \<and> doc_id r' = doc_id r))"
proof (intro conjI allI impI)
  fix existing others
  assume found: "find_registered (user_id usr) (dto_google_file_id dto) d = existing # others"
  show run: "registerDocument drv uuid now usr dto d
          = (Inr existing,
             if is_active existing then d else set_active True now (doc_id existing) d)"
    by (rule registerDocument_found[OF found])
  show "length (documents (snd (registerDocument drv uuid now usr dto d)))
            = length (documents d)"
    unfolding run by (simp add: set_active_length)
  show "map doc_id (documents (snd (registerDocument drv uuid now usr dto d)))
            = map doc_id (documents d)"
    unfolding run by (simp add: set_active_ids)
  show "map (\<lambda>row. (doc_id row, is_active row))
             (take 1 (find_registered (user_id usr) (dto_google_file_id dto)
                        (snd (registerDocument drv uuid now usr dto d))))
            = [(doc_id existing, True)]"
    unfolding run using found by (simp add: find_registered_set_active)
next
  fix newDoc d1
  assume a: "find_registered (user_id usr) (dto_google_file_id dto) d = []
        \<and> registerDocument drv uuid now usr dto d = (Inr newDoc, d1)"
  then show "documents d1 = documents d @ [newDoc]" "doc_user_id newDoc = user_id usr"
    "is_active newDoc"
    using registerDocument_new[of usr dto d drv uuid now newDoc d1] by simp_all
next
  assume grown: "length (documents (snd (registerDocument drv uuid now usr dto d)))
         \<noteq> length (documents d)"
  show "find_registered (user_id usr) (dto_google_file_id dto) d = []"
  proof (cases "find_registered (user_id usr) (dto_google_file_id dto) d")
    case Nil
    then show ?thesis .
  next
    case (Cons existing others)
    then show ?thesis
      using grown registerDocument_found[OF Cons, of drv uuid now]
      by (cases "is_active existing") (simp_all add: set_active_length)
  qed
next
  fix r d1
  assume a: "registerDocument drv uuid now usr dto d = (Inr r, d1)
        \<and> copy_to_folder dto \<noteq> Some True"
  then have run: "registerDocument drv uuid now usr dto d = (Inr r, d1)"
    and no_copy: "copy_to_folder dto \<noteq> Some True" by simp_all
  show "\<exists>r'. registerDocument drv2 uuid2 now2 usr dto d1 = (Inr r', d1) \<and> doc_id r' = doc_id r"
  proof (cases "find_registered (user_id usr) (dto_google_file_id dto) d")
    case Nil
    note new = registerDocument_new[OF Nil run]
    have "find_registered (user_id usr) (dto_google_file_id dto) d1 = [r]"
      using new no_copy Nil by (simp add: find_registered_def)
    from registerDocument_found[OF this, of drv2 uuid2 now2] new(3)
    show ?thesis by simp
  next
    case (Cons existing others)
    have first: "registerDocument drv uuid now usr dto d
          = (Inr existing,
             if is_active existing then d else set_active True now (doc_id existing) d)"
      by (rule registerDocument_found[OF Cons])
    show ?thesis
    proof (cases "is_active existing")
      case True
      then have "r = existing" "d1 = d" using first run by simp_all
      then show ?thesis
        using registerDocument_found[OF Cons, of drv2 uuid2 now2] True by simp
    next
      case False
      then have r: "r = existing" and d1: "d1 = set_active True now (doc_id existing) d"
        using first run by simp_all
      let ?e = "existing\<lparr>is_active := True, doc_updated_at := now\<rparr>"
      have "find_registered (user_id usr) (dto_google_file_id dto) d1
              = ?e # map (\<lambda>row. if doc_id row = doc_id existing
                                   then row\<lparr>is_active := True, doc_updated_at := now\<rparr>
                                   else row) others"
        unfolding d1 find_registered_set_active Cons by simp
      from registerDocument_found[OF this, of drv2 uuid2 now2]
      show ?thesis using r by simp
    qed
  qed
qed

theorem registerDocument_idempotent_witness:
  "find_registered ''u1'' ''g1'' inactive_db = [ex_document\<lparr>is_active := False\<rparr>]
   \<and> registerDocument ex_provider ex_uuid 9 \<lparr>user_id = ''u1'', watched_folder_id = Some ''f1''\<rparr>
        \<lparr>dto_google_file_id = ''g1'', copy_to_folder = None\<rparr> inactive_db
       = (Inr (ex_document\<lparr>is_active := False\<rparr>), set_active True 9 ''d1'' inactive_db)
   \<and> length (documents (set_active True 9 ''d1'' inactive_db)) = 1
   \<and> map is_active (documents (set_active True 9 ''d1'' inactive_db)) = [True]
   \<and> find_registered ''u1'' ''g2'' ex_db = []
   \<and> map google_file_id
        (documents (snd (registerDocument ex_provider ex_uuid 9
           \<lparr>user_id = ''u1'', watched_folder_id = Some ''f1''\<rparr>
           \<lparr>dto_google_file_id = ''g2'', copy_to_folder = None\<rparr> ex_db)))
       = [''g1'', ''g2'']"
proof -
  let ?usr = "\<lparr>user_id = ''u1'', watched_folder_id = Some ''f1''\<rparr>"
  let ?dto = "\<lparr>dto_google_file_id = ''g1'', copy_to_folder = None\<rparr>"
  let ?old = "ex_document\<lparr>is_active := False\<rparr>"
  have found: "find_registered (user_id ?usr) (dto_google_file_id ?dto) inactive_db = ?old # []"
    by (simp add: find_registered_def inactive_db_def ex_db_def ex_document_def)
  have inactive: "\<not> is_active ?old" "doc_id ?old = ''d1''"
    by (simp_all add: ex_document_def)
  note T = registerDocument_idempotent[of ?usr ?dto inactive_db ex_provider ex_uuid 9
      ex_provider ex_uuid 9]
  have "registerDocument ex_provider ex_uuid 9 ?usr ?dto inactive_db
          = (Inr ?old, if is_active ?old then inactive_db
                       else set_active True 9 (doc_id ?old) inactive_db)"
    using T[THEN conjunct1, rule_format, OF found] by (rule conjunct1)
  then have run: "registerDocument ex_provider ex_uuid 9 ?usr ?dto inactive_db
               = (Inr ?old, set_active True 9 ''d1'' inactive_db)"
    unfolding inactive(2) using inactive(1) by simp
  have l1: "length (documents (set_active True 9 ''d1'' inactive_db)) = 1"
    by (simp add: set_active_length inactive_db_def)
  have act: "map is_active (documents (set_active True 9 ''d1'' inactive_db)) = [True]"
    by (simp add: set_active_def inactive_db_def ex_document_def)
  have none: "find_registered ''u1'' ''g2'' ex_db = []"
    by (simp add: find_registered_def ex_db_def ex_document_def)
  have added: "map google_file_id
        (documents (snd (registerDocument ex_provider ex_uuid 9 ?usr
           \<lparr>dto_google_file_id = ''g2'', copy_to_folder = None\<rparr> ex_db)))
       = [''g1'', ''g2'']"
    by code_simp
  show ?thesis
    using found run l1 act none added by simp
qed

section \<open>Properties of the whole-folder sync\<close>

lemma first_file_keys:
  "first_file u i d =
     first_elem (map (\<lambda>k. snd (snd k)) (filter (\<lambda>k. fst k = i \<and> fst (snd k) = u) (doc_keys d)))"
  by (simp add: first_file_def find_document_def doc_keys_def filter_map comp_def)

lemma first_elem_append: "first_elem xs = Some x \<Longrightarrow> first_elem (xs @ ys) = Some x"
  by (cases xs) (simp_all add: first_elem_def)

lemma first_file_extend:
  assumes "doc_keys d' = doc_keys d @ extra" and "first_file u i d = Some g"
  shows "first_file u i d' = Some g"
  using assms(2) unfolding first_file_keys assms(1)
  by (simp add: first_elem_append)

lemma doc_keys_map:
  assumes "documents d' = map f (documents d)"
    and "\<And>row. doc_id (f row) = doc_id row" and "\<And>row. doc_user_id (f row) = doc_user_id row"
    and "\<And>row. google_file_id (f row) = google_file_id row"
  shows "doc_keys d' = doc_keys d"
  using assms by (simp add: doc_keys_def comp_def)

lemma doc_keys_same: "documents d' = documents d \<Longrightarrow> doc_keys d' = doc_keys d"
  by (simp add: doc_keys_def)
lemma find_registered_keys:
  "(find_registered u g d = []) = ((u, g) \<notin> set (map snd (doc_keys d)))"
  by (auto simp add: find_registered_def doc_keys_def filter_empty_conv image_iff)

lemma find_document_first_file:
  assumes "first_file u i d = Some k"
  shows "\<exists>doc others. find_document u i d = doc # others \<and> google_file_id doc = k"
  using assms by (cases "find_document u i d") (auto simp add: first_file_def first_elem_def)

text \<open>
  What a call of \<open>syncDocument\<close> leaves: the rows of \<open>segments\<close> and of \<open>documents\<close> one by
  one, with their keys, and a longer log. A segment row that differs has the identifier
  of a segment of the document.
\<close>

lemma syncDocument_effect:
  "\<exists>F G L. snd (syncDocument g now u i d)
             = d\<lparr>segments := map F (segments d), documents := map G (documents d), sync_log := L\<rparr>
     \<and> (\<forall>row. seg_id (F row) = seg_id row \<and> seg_document_id (F row) = seg_document_id row
              \<and> (F row \<noteq> row \<longrightarrow>
                   seg_id row \<in> seg_id ` {x \<in> set (segments d). seg_document_id x = i}))
     \<and> (\<forall>row. doc_id (G row) = doc_id row \<and> doc_user_id (G row) = doc_user_id row
              \<and> google_file_id (G row) = google_file_id row)"
proof -
  have plain: ?thesis if "snd (syncDocument g now u i d) = d\<lparr>sync_log := L\<rparr>" for L
  proof -
    have "snd (syncDocument g now u i d)
            = d\<lparr>segments := map (\<lambda>x. x) (segments d), documents := map (\<lambda>x. x) (documents d),
                sync_log := L\<rparr>"
      using that by simp
    then show ?thesis by (intro exI[of _ "\<lambda>x. x"] exI[of _ L]) simp
  qed
  show ?thesis
  proof (cases "find_document u i d")
    case Nil
    show ?thesis
    proof (cases "i \<in> doc_id ` set (documents d)")
      case True
      then show ?thesis
        using syncDocument_not_found[OF Nil, of g now] by (intro plain) simp
    next
      case False
      then have "snd (syncDocument g now u i d) = d\<lparr>sync_log := sync_log d\<rparr>"
        using syncDocument_not_found[OF Nil, of g now] by simp
      then show ?thesis by (rule plain)
    qed
  next
    case (Cons doc others)
    show ?thesis
    proof (cases "fetchDocument g (google_file_id doc)")
      case (Inl e)
      show ?thesis
      proof (cases "statusCode e = Some 404 \<or> statusCode e = Some 403")
        case True
        let ?G = "\<lambda>row. if doc_id row = i
                         then row\<lparr>is_active := False, doc_updated_at := now\<rparr> else row"
        have "snd (syncDocument g now u i d)
                = d\<lparr>segments := map (\<lambda>x. x) (segments d), documents := map ?G (documents d),
                    sync_log := sync_log d @
                      [log_row u (Some i) ''single_sync'' ''failed'' (ErrorDetails (message e))]\<rparr>"
          unfolding syncDocument_lost_exit[OF Cons Inl True] by simp
        then show ?thesis
          by (intro exI[of _ "\<lambda>x. x"] exI[of _ ?G] exI) simp
      next
        case False
        then show ?thesis
          using syncDocument_fetch_error[OF Cons Inl, of now] by (intro plain) simp
      qed
    next
      case (Inr driveDoc)
      show ?thesis
      proof (cases "storable driveDoc i d")
        case False
        show ?thesis
          using syncDocument_unstorable[OF Cons Inr False, of now] by (intro plain) simp
      next
        case True
        let ?ft = "body_text driveDoc"
        let ?rg = "getCmmsNamedRanges driveDoc"
        let ?snap = "filter (\<lambda>s. seg_document_id s = i) (segments d)"
        let ?F = "\<lambda>row. if seg_id row \<in> changed_ids ?ft ?rg ?snap
                         then synced_row now ?ft ?rg row else row"
        let ?G = "\<lambda>row. if doc_id row = i
                         then row\<lparr>last_synced_at := Some now,
                                  doc_title := Some (gdoc_title driveDoc),
                                  doc_updated_at := now\<rparr> else row"
        have run: "snd (syncDocument g now u i d)
                = d\<lparr>segments := map ?F (segments d), documents := map ?G (documents d),
                    sync_log := sync_log d @
                      [log_row u (Some i) ''single_sync'' ''success''
                         (ResultDetails (sync_result ?ft ?rg ?snap))]\<rparr>"
          unfolding syncDocument_fetched[OF Cons Inr True] by (simp add: synced_table_def)
        have docF: "seg_document_id (?F row) = seg_document_id row" for row
          by (simp add: synced_row_def split: option.splits)
        have changed: "changed_ids ?ft ?rg ?snap
                         \<subseteq> seg_id ` {x \<in> set (segments d). seg_document_id x = i}"
          by (auto simp add: changed_ids_def)
        have F: "\<forall>row. seg_id (?F row) = seg_id row
                   \<and> seg_document_id (?F row) = seg_document_id row
                   \<and> (?F row \<noteq> row \<longrightarrow>
                        seg_id row \<in> seg_id ` {x \<in> set (segments d). seg_document_id x = i})"
          using changed docF by (auto simp add: seg_id_synced_row)
        have G: "\<forall>row. doc_id (?G row) = doc_id row \<and> doc_user_id (?G row) = doc_user_id row
              \<and> google_file_id (?G row) = google_file_id row"
          by simp
        show ?thesis
          using run F G by (intro exI[of _ ?F] exI[of _ ?G] exI conjI)
      qed
    qed
  qed
qed

lemma syncDocument_keys: "doc_keys (snd (syncDocument g now u i d)) = doc_keys d"
proof -
  from syncDocument_effect[of g now u i d] obtain F G L where
    run: "snd (syncDocument g now u i d)
            = d\<lparr>segments := map F (segments d), documents := map G (documents d), sync_log := L\<rparr>"
    and G: "\<forall>row. doc_id (G row) = doc_id row \<and> doc_user_id (G row) = doc_user_id row
              \<and> google_file_id (G row) = google_file_id row"
    by blast
  show ?thesis
    by (rule doc_keys_map[where f = G]) (simp_all add: run G)
qed

lemma syncDocument_frame:
  "users (snd (syncDocument g now u i d)) = users d"
  "uuid_counter (snd (syncDocument g now u i d)) = uuid_counter d"
  "map doc_id (documents (snd (syncDocument g now u i d))) = map doc_id (documents d)"
  "map seg_id (segments (snd (syncDocument g now u i d))) = map seg_id (segments d)"
proof -
  from syncDocument_effect[of g now u i d] obtain F G L where
    run: "snd (syncDocument g now u i d)
            = d\<lparr>segments := map F (segments d), documents := map G (documents d), sync_log := L\<rparr>"
    and F: "\<forall>row. seg_id (F row) = seg_id row \<and> seg_document_id (F row) = seg_document_id row
              \<and> (F row \<noteq> row \<longrightarrow>
                   seg_id row \<in> seg_id ` {x \<in> set (segments d). seg_document_id x = i})"
    and G: "\<forall>row. doc_id (G row) = doc_id row \<and> doc_user_id (G row) = doc_user_id row
              \<and> google_file_id (G row) = google_file_id row"
    by blast
  show "users (snd (syncDocument g now u i d)) = users d"
    and "uuid_counter (snd (syncDocument g now u i d)) = uuid_counter d"
    by (simp_all add: run)
  show "map doc_id (documents (snd (syncDocument g now u i d))) = map doc_id (documents d)"
    using G by (simp add: run comp_def)
  show "map seg_id (segments (snd (syncDocument g now u i d))) = map seg_id (segments d)"
    using F by (simp add: run comp_def)
qed

text \<open>
  With the primary key of \<open>segments\<close>, the reconciliation of a document leaves the
  segments of every other document as they were.
\<close>

lemma syncDocument_other_segments:
  assumes pk: "distinct (map seg_id (segments d))" and other: "j \<noteq> i"
  shows "filter (\<lambda>s. seg_document_id s = j) (segments (snd (syncDocument g now u i d)))
           = filter (\<lambda>s. seg_document_id s = j) (segments d)"
proof -
  from syncDocument_effect[of g now u i d] obtain F G L where
    run: "snd (syncDocument g now u i d)
            = d\<lparr>segments := map F (segments d), documents := map G (documents d), sync_log := L\<rparr>"
    and F: "\<forall>row. seg_id (F row) = seg_id row \<and> seg_document_id (F row) = seg_document_id row
              \<and> (F row \<noteq> row \<longrightarrow>
                   seg_id row \<in> seg_id ` {x \<in> set (segments d). seg_document_id x = i})"
    by blast
  have docF: "\<And>row. seg_document_id (F row) = seg_document_id row" using F by blast
  have keep: "F row = row" if row: "row \<in> set (segments d)" and j: "seg_document_id row = j" for row
  proof (rule ccontr)
    assume "F row \<noteq> row"
    then have "seg_id row \<in> seg_id ` {x \<in> set (segments d). seg_document_id x = i}"
      using F by blast
    then obtain x where x: "x \<in> set (segments d)" "seg_document_id x = i" "seg_id x = seg_id row"
      by auto
    have "inj_on seg_id (set (segments d))"
      using pk by (simp add: distinct_map)
    then have "x = row"
      using x(3) x(1) row by (rule inj_onD)
    then show False using x(2) j other by simp
  qed
  have "filter (\<lambda>s. seg_document_id s = j) (map F (segments d))
          = map F (filter (\<lambda>s. seg_document_id s = j) (segments d))"
    unfolding filter_map comp_def docF ..
  also have "\<dots> = filter (\<lambda>s. seg_document_id s = j) (segments d)"
    by (rule map_idI) (simp add: keep)
  finally show ?thesis by (simp add: run)
qed

text \<open>
  The outcome of a reconciliation is decided by what it reads: the file of the row the
  lookup finds and the segments of the document.
\<close>

lemma syncDocument_view:
  assumes view: "sync_view u i d = sync_view u i d0" and reg: "first_file u i d0 = Some k"
  shows "fst (syncDocument g now u i d) = fst (syncDocument g now u i d0)"
proof -
  have reg': "first_file u i d = Some k"
    and snap: "filter (\<lambda>s. seg_document_id s = i) (segments d)
                 = filter (\<lambda>s. seg_document_id s = i) (segments d0)"
    using view reg by (simp_all add: sync_view_def)
  from find_document_first_file[OF reg'] obtain doc others where
    found: "find_document u i d = doc # others" and gf: "google_file_id doc = k"
    by blast
  from find_document_first_file[OF reg] obtain doc0 others0 where
    found0: "find_document u i d0 = doc0 # others0" and gf0: "google_file_id doc0 = k"
    by blast
  show ?thesis
  proof (cases "fetchDocument g k")
    case (Inl e)
    show ?thesis
    proof (cases "statusCode e = Some 404 \<or> statusCode e = Some 403")
      case True
      show ?thesis
        unfolding syncDocument_lost_exit[OF found Inl[folded gf] True]
          syncDocument_lost_exit[OF found0 Inl[folded gf0] True]
        by simp
    next
      case False
      then show ?thesis
        using syncDocument_fetch_error[OF found Inl[folded gf], of now]
          syncDocument_fetch_error[OF found0 Inl[folded gf0], of now]
        by simp
    qed
  next
    case (Inr driveDoc)
    have st: "storable driveDoc i d = storable driveDoc i d0"
      and rej: "sync_rejection driveDoc i d = sync_rejection driveDoc i d0"
      by (simp_all add: storable_def sync_rejection_def snap)
    show ?thesis
    proof (cases "storable driveDoc i d")
      case True
      then have True0: "storable driveDoc i d0" using st by simp
      show ?thesis
        unfolding syncDocument_fetched[OF found Inr[folded gf] True]
          syncDocument_fetched[OF found0 Inr[folded gf0] True0]
        by (simp add: snap)
    next
      case False
      then have False0: "\<not> storable driveDoc i d0" using st by simp
      show ?thesis
        unfolding syncDocument_unstorable[OF found Inr[folded gf] False]
          syncDocument_unstorable[OF found0 Inr[folded gf0] False0]
        by (simp add: rej)
    qed
  qed
qed

text \<open>
  What a registration without a copy leaves: the segments and the users as they were,
  and the keys of \<open>documents\<close> as they were or with one new row, whose identifier is the
  next one generated.
\<close>

lemma registerDocument_effect:
  assumes nocopy: "copy_to_folder dto \<noteq> Some True"
  shows "segments (snd (registerDocument drv uuid now usr dto d)) = segments d"
    and "users (snd (registerDocument drv uuid now usr dto d)) = users d"
    and "(doc_keys (snd (registerDocument drv uuid now usr dto d)) = doc_keys d
           \<and> uuid_counter (snd (registerDocument drv uuid now usr dto d)) = uuid_counter d)
         \<or> (doc_keys (snd (registerDocument drv uuid now usr dto d))
               = doc_keys d @ [(uuid (uuid_counter d), user_id usr, dto_google_file_id dto)]
             \<and> uuid_counter (snd (registerDocument drv uuid now usr dto d))
               = Suc (uuid_counter d))"
proof -
  let ?d' = "snd (registerDocument drv uuid now usr dto d)"
  have "segments ?d' = segments d \<and> users ?d' = users d
        \<and> ((doc_keys ?d' = doc_keys d \<and> uuid_counter ?d' = uuid_counter d)
           \<or> (doc_keys ?d'
                 = doc_keys d @ [(uuid (uuid_counter d), user_id usr, dto_google_file_id dto)]
               \<and> uuid_counter ?d' = Suc (uuid_counter d)))"
  proof (cases "find_registered (user_id usr) (dto_google_file_id dto) d")
    case (Cons existing others)
    have "doc_keys (set_active True now (doc_id existing) d) = doc_keys d"
      by (rule doc_keys_map[where f = "\<lambda>row. if doc_id row = doc_id existing
                 then row\<lparr>is_active := True, doc_updated_at := now\<rparr> else row"])
         (simp_all add: set_active_def)
    then show ?thesis
      unfolding registerDocument_found[OF Cons] by (simp add: set_active_def)
  next
    case Nil
    have cp: "copy_if_requested drv usr dto = Inr (dto_google_file_id dto)"
      using nocopy by (simp add: copy_if_requested_def)
    show ?thesis
    proof (cases "getFileMetadata drv (dto_google_file_id dto)")
      case (Inl e)
      then show ?thesis using Nil cp by (simp add: registerDocument_def)
    next
      case meta: (Inr meta)
      show ?thesis
      proof (cases "insert_document uuid now (user_id usr) (dto_google_file_id dto) meta d")
        case (Inl e)
        then show ?thesis using Nil cp meta by (simp add: registerDocument_def)
      next
        case ins: (Inr p)
        obtain row d1 where p: "p = (row, d1)" by (cases p)
        note r = insert_document_row[OF ins[unfolded p]]
        have d': "?d' = d1"
          using Nil cp meta ins p
          by (cases "files_update drv (dto_google_file_id dto)") (simp_all add: registerDocument_def)
        have "doc_keys d1
                = doc_keys d @ [(uuid (uuid_counter d), user_id usr, dto_google_file_id dto)]"
          using r(1,2,3,9) by (simp add: doc_keys_def)
        then show ?thesis
          unfolding d' using r(7,8,10) by simp
      qed
    qed
  qed
  then show "segments ?d' = segments d" and "users ?d' = users d"
    and "(doc_keys ?d' = doc_keys d \<and> uuid_counter ?d' = uuid_counter d)
         \<or> (doc_keys ?d'
               = doc_keys d @ [(uuid (uuid_counter d), user_id usr, dto_google_file_id dto)]
             \<and> uuid_counter ?d' = Suc (uuid_counter d))"
    by blast+
qed

text \<open>
  Whether a registration without a copy returns a document, when no row of the user has
  the file: the metadata is fetched, the row is accepted, and the provider takes the
  properties.
\<close>

lemma registerDocument_new_returns:
  assumes nocopy: "copy_to_folder dto \<noteq> Some True"
    and none: "find_registered (user_id usr) (dto_google_file_id dto) d = []"
  shows "(\<exists>doc. fst (registerDocument drv uuid now usr dto d) = Inr doc) =
     (\<exists>meta. getFileMetadata drv (dto_google_file_id dto) = Inr meta
        \<and> length (dto_google_file_id dto) \<le> 255 \<and> fits 500 (file_name meta)
        \<and> fits 255 (case parents meta of [] \<Rightarrow> None | p # _ \<Rightarrow> Some p)
        \<and> fits 100 (mimeType meta)
        \<and> uuid (uuid_counter d) \<notin> doc_id ` set (documents d)
        \<and> user_id usr \<in> user_id ` set (users d)
        \<and> files_update drv (dto_google_file_id dto) = None)"
proof -
  have cp: "copy_if_requested drv usr dto = Inr (dto_google_file_id dto)"
    using nocopy by (simp add: copy_if_requested_def)
  show ?thesis
  proof (cases "getFileMetadata drv (dto_google_file_id dto)")
    case (Inl e)
    then show ?thesis using none cp by (simp add: registerDocument_def)
  next
    case meta: (Inr meta)
    let ?ok = "length (dto_google_file_id dto) \<le> 255 \<and> fits 500 (file_name meta)
        \<and> fits 255 (case parents meta of [] \<Rightarrow> None | p # _ \<Rightarrow> Some p)
        \<and> fits 100 (mimeType meta)
        \<and> uuid (uuid_counter d) \<notin> doc_id ` set (documents d)
        \<and> user_id usr \<in> user_id ` set (users d)"
    have ins: "(\<exists>p. insert_document uuid now (user_id usr) (dto_google_file_id dto) meta d = Inr p)
                 = ?ok"
      using none by (auto simp add: insert_document_def Let_def)
    show ?thesis
    proof (cases "insert_document uuid now (user_id usr) (dto_google_file_id dto) meta d")
      case (Inl e)
      then have "\<not> ?ok" using ins by simp
      then show ?thesis using none cp meta Inl by (auto simp add: registerDocument_def)
    next
      case (Inr p)
      then have ok: "?ok" using ins by blast
      obtain row d1 where p: "p = (row, d1)" by (cases p)
      show ?thesis
        using none cp meta Inr p ok
        by (cases "files_update drv (dto_google_file_id dto)") (simp_all add: registerDocument_def)
    qed
  qed
qed

lemma registerDocument_outcome:
  assumes nocopy: "copy_to_folder dto \<noteq> Some True"
    and same: "(find_registered (user_id usr) (dto_google_file_id dto) d = [])
                 = (find_registered (user_id usr) (dto_google_file_id dto) d0 = [])"
    and users: "users d = users d0"
    and new: "uuid (uuid_counter d) \<notin> doc_id ` set (documents d)"
    and new0: "uuid (uuid_counter d0) \<notin> doc_id ` set (documents d0)"
  shows "(\<exists>doc. fst (registerDocument drv uuid now usr dto d) = Inr doc)
           = (\<exists>doc. fst (registerDocument drv uuid now usr dto d0) = Inr doc)"
proof (cases "find_registered (user_id usr) (dto_google_file_id dto) d")
  case Nil
  then have Nil0: "find_registered (user_id usr) (dto_google_file_id dto) d0 = []"
    using same by simp
  show ?thesis
    unfolding registerDocument_new_returns[OF nocopy Nil]
      registerDocument_new_returns[OF nocopy Nil0]
    using users new new0 by simp
next
  case (Cons existing others)
  then obtain existing0 others0 where
    Cons0: "find_registered (user_id usr) (dto_google_file_id dto) d0 = existing0 # others0"
    using same by (cases "find_registered (user_id usr) (dto_google_file_id dto) d0") simp_all
  show ?thesis
    unfolding registerDocument_found[OF Cons] registerDocument_found[OF Cons0] by simp
qed

text \<open>After a registration without a copy that returns, a row of the user has the file.\<close>

lemma registerDocument_registered:
  assumes nocopy: "copy_to_folder dto \<noteq> Some True"
    and run: "fst (registerDocument drv uuid now usr dto d) = Inr doc"
  shows "find_registered (user_id usr) (dto_google_file_id dto)
           (snd (registerDocument drv uuid now usr dto d)) \<noteq> []"
proof (cases "find_registered (user_id usr) (dto_google_file_id dto) d")
  case (Cons existing others)
  show ?thesis
    unfolding registerDocument_found[OF Cons]
    using Cons by (simp add: find_registered_set_active)
next
  case Nil
  obtain d1 where full: "registerDocument drv uuid now usr dto d = (Inr doc, d1)"
    using run by (cases "registerDocument drv uuid now usr dto d") simp
  note new = registerDocument_new[OF Nil full]
  have "doc \<in> set (documents d1)" using new(1) by simp
  moreover have "doc_user_id doc = user_id usr" "google_file_id doc = dto_google_file_id dto"
    using new(2,4) nocopy by simp_all
  ultimately have "doc \<in> set (find_registered (user_id usr) (dto_google_file_id dto) d1)"
    by (simp add: find_registered_def)
  then show ?thesis using full by auto
qed

lemma set_AList_update: "set (AList.update k v al) \<subseteq> insert (k, v) (set al)"
  by (induction al) auto

lemma set_dbDocsMap_foldl:
  "set (foldl (\<lambda>m row. AList.update (google_file_id row) (doc_id row) m) acc rows)
     \<subseteq> set acc \<union> (\<lambda>row. (google_file_id row, doc_id row)) ` set rows"
proof (induction rows arbitrary: acc)
  case Nil
  then show ?case by simp
next
  case (Cons row rows)
  have "set (foldl (\<lambda>m row. AList.update (google_file_id row) (doc_id row) m)
               (AList.update (google_file_id row) (doc_id row) acc) rows)
        \<subseteq> set (AList.update (google_file_id row) (doc_id row) acc)
            \<union> (\<lambda>row. (google_file_id row, doc_id row)) ` set rows"
    by (rule Cons.IH)
  then show ?case
    using set_AList_update[of "google_file_id row" "doc_id row" acc] by auto
qed

lemma set_dbDocsMap_of:
  "set (dbDocsMap_of rows) \<subseteq> (\<lambda>row. (google_file_id row, doc_id row)) ` set rows"
  using set_dbDocsMap_foldl[of "[]" rows] by (simp add: dbDocsMap_of_def)

lemma filter_by_distinct_id:
  assumes "distinct (map doc_id docs)" and "row \<in> set docs"
  shows "filter (\<lambda>x. doc_id x = doc_id row \<and> P x) docs = (if P row then [row] else [])"
  using assms
proof (induction docs)
  case Nil
  then show ?case by simp
next
  case (Cons a docs)
  show ?case
  proof (cases "a = row")
    case True
    then have "doc_id row \<notin> doc_id ` set docs"
      using Cons.prems(1) by simp
    then have "\<forall>x \<in> set docs. doc_id x \<noteq> doc_id row"
      by (metis imageI)
    then have "filter (\<lambda>x. doc_id x = doc_id row \<and> P x) docs = []"
      by (simp add: filter_empty_conv)
    then show ?thesis using True by simp
  next
    case False
    then have "row \<in> set docs" using Cons.prems(2) by simp
    moreover have "doc_id a \<notin> doc_id ` set docs"
      using Cons.prems(1) by simp
    then have "doc_id a \<noteq> doc_id row"
      using calculation by (metis imageI)
    ultimately show ?thesis using Cons by simp
  qed
qed

text \<open>
  With the primary key of \<open>documents\<close>, the map of registered documents sends a file to
  a document whose lookup finds a row of that file.
\<close>

lemma dbDocsMap_first_file:
  assumes pk: "distinct (map doc_id (documents d))"
    and entry: "(k, i) \<in> set (dbDocsMap_of (active_documents u d))"
  shows "first_file u i d = Some k"
proof -
  obtain row where row: "row \<in> set (active_documents u d)"
    and k: "k = google_file_id row" and i: "i = doc_id row"
    using entry set_dbDocsMap_of[of "active_documents u d"] by auto
  have stored: "row \<in> set (documents d)" and mine: "doc_user_id row = u"
    using row by (simp_all add: active_documents_def)
  have "find_document u i d = [row]"
    unfolding find_document_def i
    using filter_by_distinct_id[OF pk stored, of "\<lambda>x. doc_user_id x = u"] mine by simp
  then show ?thesis by (simp add: first_file_def first_elem_def k)
qed

lemma remove_documents_result:
  "errors (fst (remove_documents now m (res, d))) = errors res
   \<and> documents_synced (fst (remove_documents now m (res, d))) = documents_synced res
   \<and> documents_added (fst (remove_documents now m (res, d))) = documents_added res
   \<and> documents_removed (fst (remove_documents now m (res, d)))
       = documents_removed res + length m"
proof (induction m arbitrary: res d)
  case Nil
  then show ?case by simp
next
  case (Cons a m)
  then show ?case by (cases a) simp
qed

lemma recorded_error_delete:
  assumes "file_id f \<noteq> k"
  shows "recorded_error drv now u d (AList.delete k m) f = recorded_error drv now u d m f"
    and "synced_ok drv now u d (AList.delete k m) f = synced_ok drv now u d m f"
    and "registered_ok drv uuid now u d (AList.delete k m) f = registered_ok drv uuid now u d m f"
  using assms by (simp_all add: recorded_error_def synced_ok_def registered_ok_def)

lemma doc_ids_keys: "doc_id ` set (documents d) = fst ` set (doc_keys d)"
  by (simp add: doc_keys_def image_comp comp_def)

lemma map_filter_cong_set:
  assumes "\<And>x. x \<in> set xs \<Longrightarrow> f x = g x"
  shows "List.map_filter f xs = List.map_filter g xs"
  using assms by (induction xs) (simp_all add: map_filter_simps split: option.splits)

lemma filter_cong_set:
  assumes "\<And>x. x \<in> set xs \<Longrightarrow> P x = Q x"
  shows "filter P xs = filter Q xs"
  using assms by (induction xs) simp_all

lemma first_file_same_keys:
  assumes "doc_keys d' = doc_keys d"
  shows "first_file u i d' = first_file u i d"
  unfolding first_file_keys assms ..

lemma find_registered_same_keys:
  assumes "doc_keys d' = doc_keys d"
  shows "(find_registered u g d' = []) = (find_registered u g d = [])"
  unfolding find_registered_keys assms ..

text \<open>
  One registered file: its document is reconciled, as it would be on the database the
  loop started from, and counted, or its error recorded.
\<close>

lemma process_file_registered:
  assumes inv: "loop_invariant uuid u d0 m (f # rest) d"
    and once: "distinct (map file_id (f # rest))"
    and reg: "map_of m (file_id f) = Some i"
  shows "\<exists>res' d'. process_file drv uuid now u f (res, m, d)
                      = (res', AList.delete (file_id f) m, d')
           \<and> loop_invariant uuid u d0 (AList.delete (file_id f) m) rest d'
           \<and> doc_keys d' = doc_keys d
           \<and> errors res' = errors res
                @ (case recorded_error drv now u d0 m f of None \<Rightarrow> [] | Some x \<Rightarrow> [x])
           \<and> documents_synced res'
                = documents_synced res + (if synced_ok drv now u d0 m f then 1 else 0)
           \<and> documents_added res' = documents_added res"
proof -
  have entry: "(file_id f, i) \<in> set m" using reg by (rule map_of_SomeD)
  have inv_m: "\<And>k j. (k, j) \<in> set m \<Longrightarrow>
                 sync_view u j d = sync_view u j d0 \<and> first_file u j d0 = Some k"
    and inv_f: "\<And>x. x \<in> set (f # rest) \<Longrightarrow>
                 (find_registered u (file_id x) d = []) = (find_registered u (file_id x) d0 = [])"
    and inv_u: "users d = users d0"
    and inv_i: "doc_id ` set (documents d)
                  \<subseteq> doc_id ` set (documents d0) \<union> uuid ` {n. n < uuid_counter d}"
    and inv_s: "distinct (map seg_id (segments d))"
    using inv unfolding loop_invariant_def by blast+
  have view: "sync_view u i d = sync_view u i d0" and reg0: "first_file u i d0 = Some (file_id f)"
    using inv_m[OF entry] by simp_all
  obtain r d1 where run: "syncDocument (documents_get drv) now u i d = (r, d1)"
    by (cases "syncDocument (documents_get drv) now u i d")
  have d1: "d1 = snd (syncDocument (documents_get drv) now u i d)" using run by simp
  have out: "fst (syncDocument (documents_get drv) now u i d0) = r"
    using syncDocument_view[OF view reg0, of "documents_get drv" now] run by simp
  have keys: "doc_keys d1 = doc_keys d"
    unfolding d1 by (rule syncDocument_keys)
  have inv': "loop_invariant uuid u d0 (AList.delete (file_id f) m) rest d1"
    unfolding loop_invariant_def
  proof (intro conjI ballI)
    fix p assume p: "p \<in> set (AList.delete (file_id f) m)"
    obtain k j where kj: "p = (k, j)" by (cases p)
    have in_m: "(k, j) \<in> set m" and other: "k \<noteq> file_id f"
      using p kj by (auto simp add: AList.delete_eq)
    have vj: "sync_view u j d = sync_view u j d0" and rj: "first_file u j d0 = Some k"
      using inv_m[OF in_m] by simp_all
    have "j \<noteq> i" using rj reg0 other by auto
    then have segs: "filter (\<lambda>s. seg_document_id s = j) (segments d1)
                       = filter (\<lambda>s. seg_document_id s = j) (segments d)"
      unfolding d1 by (rule syncDocument_other_segments[OF inv_s])
    have "sync_view u j d1 = sync_view u j d"
      by (simp add: sync_view_def segs first_file_same_keys[OF keys])
    then show "case p of (k, i) \<Rightarrow> sync_view u i d1 = sync_view u i d0
                                    \<and> first_file u i d0 = Some k"
      using vj rj kj by simp
  next
    fix x assume "x \<in> set rest"
    then show "(find_registered u (file_id x) d1 = []) = (find_registered u (file_id x) d0 = [])"
      using inv_f[of x] find_registered_same_keys[OF keys] by simp
  next
    show "users d1 = users d0"
      unfolding d1 using inv_u by (simp add: syncDocument_frame)
    have "doc_id ` set (documents d1) = doc_id ` set (documents d)"
      unfolding doc_ids_keys keys ..
    moreover have "uuid_counter d1 = uuid_counter d"
      unfolding d1 by (rule syncDocument_frame)
    ultimately show "doc_id ` set (documents d1)
            \<subseteq> doc_id ` set (documents d0) \<union> uuid ` {n. n < uuid_counter d1}"
      using inv_i by simp
    show "distinct (map seg_id (segments d1))"
      unfolding d1 using inv_s by (simp add: syncDocument_frame)
  qed
  show ?thesis
  proof (cases r)
    case (Inr singleRes)
    have "process_file drv uuid now u f (res, m, d) =
            (res\<lparr>documents_synced := Suc (documents_synced res),
                 segments_updated := segments_updated res + updated_segments singleRes\<rparr>,
             AList.delete (file_id f) m, d1)"
      using reg run Inr by (simp add: process_file_def)
    moreover have "recorded_error drv now u d0 m f = None" "synced_ok drv now u d0 m f"
      using reg out Inr by (simp_all add: recorded_error_def synced_ok_def)
    ultimately show ?thesis using inv' keys by simp
  next
    case (Inl e)
    have "process_file drv uuid now u f (res, m, d) =
            (res\<lparr>errors := errors res @ [\<lparr>err_document_id = i, err_error = message e\<rparr>]\<rparr>,
             AList.delete (file_id f) m, d1)"
      using reg run Inl by (simp add: process_file_def)
    moreover have "recorded_error drv now u d0 m f
                     = Some \<lparr>err_document_id = i, err_error = message e\<rparr>"
      "\<not> synced_ok drv now u d0 m f"
      using reg out Inl by (simp_all add: recorded_error_def synced_ok_def)
    ultimately show ?thesis using inv' keys by simp
  qed
qed

text \<open>
  One file that is not registered: it is registered, as it would be on the database the
  loop started from, and counted when the registration returns; the counters of
  reconciliation stay.
\<close>

lemma process_file_unregistered:
  assumes inv: "loop_invariant uuid u d0 m (f # rest) d"
    and once: "distinct (map file_id (f # rest))"
    and unreg: "map_of m (file_id f) = None"
    and inj: "inj uuid" and fresh: "\<And>n. uuid n \<notin> doc_id ` set (documents d0)"
  shows "\<exists>res' d' extra. process_file drv uuid now u f (res, m, d) = (res', m, d')
           \<and> loop_invariant uuid u d0 m rest d'
           \<and> doc_keys d' = doc_keys d @ extra
           \<and> errors res' = errors res \<and> documents_synced res' = documents_synced res
           \<and> documents_added res'
                = documents_added res + (if registered_ok drv uuid now u d0 m f then 1 else 0)
           \<and> (registered_ok drv uuid now u d0 m f \<longrightarrow> find_registered u (file_id f) d' \<noteq> [])"
proof -
  let ?usr = "\<lparr>user_id = u, watched_folder_id = None\<rparr>"
  let ?dto = "\<lparr>dto_google_file_id = file_id f, copy_to_folder = None\<rparr>"
  have nocopy: "copy_to_folder ?dto \<noteq> Some True" by simp
  have inv_m: "\<And>k j. (k, j) \<in> set m \<Longrightarrow>
                 sync_view u j d = sync_view u j d0 \<and> first_file u j d0 = Some k"
    and inv_f: "\<And>x. x \<in> set (f # rest) \<Longrightarrow>
                 (find_registered u (file_id x) d = []) = (find_registered u (file_id x) d0 = [])"
    and inv_u: "users d = users d0"
    and inv_i: "doc_id ` set (documents d)
                  \<subseteq> doc_id ` set (documents d0) \<union> uuid ` {n. n < uuid_counter d}"
    and inv_s: "distinct (map seg_id (segments d))"
    using inv unfolding loop_invariant_def by blast+
  obtain r d1 where run: "registerDocument drv uuid now ?usr ?dto d = (r, d1)"
    by (cases "registerDocument drv uuid now ?usr ?dto d")
  have d1: "d1 = snd (registerDocument drv uuid now ?usr ?dto d)" using run by simp
  have new: "uuid (uuid_counter d) \<notin> doc_id ` set (documents d)"
  proof
    assume "uuid (uuid_counter d) \<in> doc_id ` set (documents d)"
    then have "uuid (uuid_counter d) \<in> uuid ` {n. n < uuid_counter d}"
      using inv_i fresh by blast
    then obtain n where "n < uuid_counter d" "uuid n = uuid (uuid_counter d)" by auto
    then show False using inj by (auto dest: injD)
  qed
  have same_outcome:
    "(\<exists>doc. fst (registerDocument drv uuid now ?usr ?dto d) = Inr doc)
       = (\<exists>doc. fst (registerDocument drv uuid now ?usr ?dto d0) = Inr doc)"
  proof (rule registerDocument_outcome[where d = d and ?d0.0 = d0])
    show "copy_to_folder ?dto \<noteq> Some True" by (rule nocopy)
    show "(find_registered (user_id ?usr) (dto_google_file_id ?dto) d = [])
            = (find_registered (user_id ?usr) (dto_google_file_id ?dto) d0 = [])"
      using inv_f[of f] by simp
    show "users d = users d0" by (rule inv_u)
    show "uuid (uuid_counter d) \<notin> doc_id ` set (documents d)" by (rule new)
    show "uuid (uuid_counter d0) \<notin> doc_id ` set (documents d0)" by (rule fresh)
  qed
  have ok: "registered_ok drv uuid now u d0 m f = (\<exists>doc. r = Inr doc)"
  proof -
    have "registered_ok drv uuid now u d0 m f
            = (\<exists>doc. fst (registerDocument drv uuid now ?usr ?dto d0) = Inr doc)"
      using unreg by (simp add: registered_ok_def split: sum.splits)
    then show ?thesis using same_outcome run by simp
  qed
  note eff = registerDocument_effect[OF nocopy, of drv uuid now ?usr d, folded d1]
  obtain extra where keys: "doc_keys d1 = doc_keys d @ extra"
    and extra: "extra = [] \<and> uuid_counter d1 = uuid_counter d
                \<or> extra = [(uuid (uuid_counter d), u, file_id f)]
                   \<and> uuid_counter d1 = Suc (uuid_counter d)"
    using eff(3) by auto
  have inv': "loop_invariant uuid u d0 m rest d1"
    unfolding loop_invariant_def
  proof (intro conjI ballI)
    fix p assume p: "p \<in> set m"
    obtain k j where kj: "p = (k, j)" by (cases p)
    have vj: "sync_view u j d = sync_view u j d0" and rj: "first_file u j d0 = Some k"
      using inv_m[of k j] p kj by simp_all
    have "first_file u j d = Some k" using vj rj by (simp add: sync_view_def)
    then have "first_file u j d1 = first_file u j d"
      using first_file_extend[OF keys] by simp
    then have "sync_view u j d1 = sync_view u j d"
      by (simp add: sync_view_def eff(1))
    then show "case p of (k, i) \<Rightarrow> sync_view u i d1 = sync_view u i d0
                                    \<and> first_file u i d0 = Some k"
      using vj rj kj by simp
  next
    fix x assume x: "x \<in> set rest"
    have "file_id f \<notin> file_id ` set rest" using once by simp
    then have "file_id x \<noteq> file_id f" using x by (metis imageI)
    then have "((u, file_id x) \<in> set (map snd (doc_keys d1)))
                 = ((u, file_id x) \<in> set (map snd (doc_keys d)))"
      unfolding keys using extra by auto
    then have "(find_registered u (file_id x) d1 = []) = (find_registered u (file_id x) d = [])"
      unfolding find_registered_keys by simp
    then show "(find_registered u (file_id x) d1 = []) = (find_registered u (file_id x) d0 = [])"
      using inv_f[of x] x by simp
  next
    show "users d1 = users d0" using eff(2) inv_u by simp
    show "doc_id ` set (documents d1)
            \<subseteq> doc_id ` set (documents d0) \<union> uuid ` {n. n < uuid_counter d1}"
    proof
      fix y assume "y \<in> doc_id ` set (documents d1)"
      then have "y \<in> fst ` set (doc_keys d) \<or> y \<in> fst ` set extra"
        unfolding doc_ids_keys keys by auto
      then show "y \<in> doc_id ` set (documents d0) \<union> uuid ` {n. n < uuid_counter d1}"
      proof
        assume "y \<in> fst ` set (doc_keys d)"
        then have "y \<in> doc_id ` set (documents d0) \<union> uuid ` {n. n < uuid_counter d}"
          using inv_i unfolding doc_ids_keys by blast
        moreover have "uuid_counter d \<le> uuid_counter d1" using extra by auto
        ultimately show ?thesis by auto
      next
        assume "y \<in> fst ` set extra"
        then have "y = uuid (uuid_counter d)" "uuid_counter d1 = Suc (uuid_counter d)"
          using extra by auto
        then show ?thesis by auto
      qed
    qed
    show "distinct (map seg_id (segments d1))" using eff(1) inv_s by simp
  qed
  have present: "find_registered u (file_id f) d1 \<noteq> []" if "r = Inr doc" for doc
    using registerDocument_registered[OF nocopy, of drv uuid now ?usr d doc] that run by simp
  show ?thesis
  proof (cases r)
    case (Inl e)
    then have "process_file drv uuid now u f (res, m, d) = (res, m, d1)"
      using unreg run by (simp add: process_file_def)
    moreover have "\<not> registered_ok drv uuid now u d0 m f" using ok Inl by simp
    ultimately show ?thesis using inv' keys by simp
  next
    case (Inr newDoc)
    then have "process_file drv uuid now u f (res, m, d)
                 = (res\<lparr>documents_added := Suc (documents_added res)\<rparr>, m, d1)"
      using unreg run by (simp add: process_file_def)
    moreover have "registered_ok drv uuid now u d0 m f" using ok Inr by simp
    ultimately show ?thesis using inv' keys present[OF Inr] by simp
  qed
qed

lemma find_registered_extend:
  assumes "doc_keys d' = doc_keys d @ extra" and "find_registered u g d \<noteq> []"
  shows "find_registered u g d' \<noteq> []"
  using assms unfolding find_registered_keys by simp

text \<open>
  The loop over the listed files: every file is processed as it would be alone on the
  database the loop started from, whatever happened to the files before it.
\<close>

lemma process_files_result:
  assumes inv: "loop_invariant uuid u d0 m files d"
    and once: "distinct (map file_id files)"
    and inj: "inj uuid" and fresh: "\<And>n. uuid n \<notin> doc_id ` set (documents d0)"
  shows "\<exists>resF mF dF extra.
           process_files drv uuid now u files (res, m, d) = (resF, mF, dF)
           \<and> doc_keys dF = doc_keys d @ extra
           \<and> errors resF = errors res @ List.map_filter (recorded_error drv now u d0 m) files
           \<and> documents_synced resF
                = documents_synced res + length (filter (synced_ok drv now u d0 m) files)
           \<and> documents_added resF
                = documents_added res + length (filter (registered_ok drv uuid now u d0 m) files)
           \<and> (\<forall>f \<in> set files. registered_ok drv uuid now u d0 m f
                  \<longrightarrow> find_registered u (file_id f) dF \<noteq> [])"
  using inv once
proof (induction files arbitrary: res m d)
  case Nil
  then show ?case by (simp add: map_filter_simps)
next
  case (Cons f rest)
  have rest_distinct: "distinct (map file_id rest)"
    and fresh_f: "file_id f \<notin> file_id ` set rest"
    using Cons.prems(2) by simp_all
  have others: "\<And>x. x \<in> set rest \<Longrightarrow> file_id x \<noteq> file_id f"
    using fresh_f by (metis imageI)
  show ?case
  proof (cases "map_of m (file_id f)")
    case None
    from process_file_unregistered[OF Cons.prems(1,2) None inj fresh, of drv now res]
    obtain res' d' extra where step: "process_file drv uuid now u f (res, m, d) = (res', m, d')"
      and inv': "loop_invariant uuid u d0 m rest d'"
      and keys: "doc_keys d' = doc_keys d @ extra"
      and same: "errors res' = errors res" "documents_synced res' = documents_synced res"
      and added: "documents_added res'
                = documents_added res + (if registered_ok drv uuid now u d0 m f then 1 else 0)"
      and present: "registered_ok drv uuid now u d0 m f \<longrightarrow> find_registered u (file_id f) d' \<noteq> []"
      by blast
    from Cons.IH[OF inv' rest_distinct, of res']
    obtain resF mF dF extraF where
      run: "process_files drv uuid now u rest (res', m, d') = (resF, mF, dF)"
      and keysF: "doc_keys dF = doc_keys d' @ extraF"
      and e: "errors resF = errors res' @ List.map_filter (recorded_error drv now u d0 m) rest"
      and s: "documents_synced resF
                = documents_synced res' + length (filter (synced_ok drv now u d0 m) rest)"
      and a: "documents_added resF
                = documents_added res' + length (filter (registered_ok drv uuid now u d0 m) rest)"
      and p: "\<forall>x \<in> set rest. registered_ok drv uuid now u d0 m x
                  \<longrightarrow> find_registered u (file_id x) dF \<noteq> []"
      by blast
    have skip: "recorded_error drv now u d0 m f = None" "\<not> synced_ok drv now u d0 m f"
      using None by (simp_all add: recorded_error_def synced_ok_def)
    have full: "process_files drv uuid now u (f # rest) (res, m, d) = (resF, mF, dF)"
      using step run by simp
    have k: "doc_keys dF = doc_keys d @ (extra @ extraF)"
      using keys keysF by simp
    have pf: "registered_ok drv uuid now u d0 m f \<longrightarrow> find_registered u (file_id f) dF \<noteq> []"
      using present find_registered_extend[OF keysF] by blast
    have "errors resF = errors res @ List.map_filter (recorded_error drv now u d0 m) (f # rest)"
      using e same skip by (simp add: map_filter_simps)
    moreover have "documents_synced resF
        = documents_synced res + length (filter (synced_ok drv now u d0 m) (f # rest))"
      using s same skip by simp
    moreover have "documents_added resF
        = documents_added res + length (filter (registered_ok drv uuid now u d0 m) (f # rest))"
      using a added by simp
    moreover have "\<forall>x \<in> set (f # rest). registered_ok drv uuid now u d0 m x
                  \<longrightarrow> find_registered u (file_id x) dF \<noteq> []"
      using p pf by simp
    ultimately show ?thesis using full k by blast
  next
    case (Some i)
    let ?m' = "AList.delete (file_id f) m"
    from process_file_registered[OF Cons.prems(1,2) Some, of drv now res]
    obtain res' d' where
      step: "process_file drv uuid now u f (res, m, d) = (res', ?m', d')"
      and inv': "loop_invariant uuid u d0 ?m' rest d'"
      and keys: "doc_keys d' = doc_keys d"
      and errs: "errors res' = errors res
                   @ (case recorded_error drv now u d0 m f of None \<Rightarrow> [] | Some x \<Rightarrow> [x])"
      and cnt: "documents_synced res'
                  = documents_synced res + (if synced_ok drv now u d0 m f then 1 else 0)"
      and add: "documents_added res' = documents_added res"
      by blast
    from Cons.IH[OF inv' rest_distinct, of res']
    obtain resF mF dF extraF where
      run: "process_files drv uuid now u rest (res', ?m', d') = (resF, mF, dF)"
      and keysF: "doc_keys dF = doc_keys d' @ extraF"
      and e: "errors resF = errors res' @ List.map_filter (recorded_error drv now u d0 ?m') rest"
      and s: "documents_synced resF
                = documents_synced res' + length (filter (synced_ok drv now u d0 ?m') rest)"
      and a: "documents_added resF
                = documents_added res' + length (filter (registered_ok drv uuid now u d0 ?m') rest)"
      and p: "\<forall>x \<in> set rest. registered_ok drv uuid now u d0 ?m' x
                  \<longrightarrow> find_registered u (file_id x) dF \<noteq> []"
      by blast
    have e_rest: "List.map_filter (recorded_error drv now u d0 ?m') rest
                    = List.map_filter (recorded_error drv now u d0 m) rest"
      by (rule map_filter_cong_set) (simp add: recorded_error_delete others)
    have s_rest: "filter (synced_ok drv now u d0 ?m') rest = filter (synced_ok drv now u d0 m) rest"
      by (rule filter_cong_set) (simp add: recorded_error_delete others)
    have a_rest: "filter (registered_ok drv uuid now u d0 ?m') rest
                    = filter (registered_ok drv uuid now u d0 m) rest"
      by (rule filter_cong_set) (simp add: recorded_error_delete others)
    have p_rest: "\<forall>x \<in> set rest. registered_ok drv uuid now u d0 m x
                  \<longrightarrow> find_registered u (file_id x) dF \<noteq> []"
      using p by (simp add: recorded_error_delete others)
    have not_new: "\<not> registered_ok drv uuid now u d0 m f"
      using Some by (simp add: registered_ok_def)
    have full: "process_files drv uuid now u (f # rest) (res, m, d) = (resF, mF, dF)"
      using step run by simp
    have k: "doc_keys dF = doc_keys d @ extraF"
      using keys keysF by simp
    have "errors resF = errors res @ List.map_filter (recorded_error drv now u d0 m) (f # rest)"
      using e errs unfolding e_rest
      by (cases "recorded_error drv now u d0 m f") (simp_all add: map_filter_simps)
    moreover have "documents_synced resF
        = documents_synced res + length (filter (synced_ok drv now u d0 m) (f # rest))"
      using s cnt unfolding s_rest by simp
    moreover have "documents_added resF
        = documents_added res + length (filter (registered_ok drv uuid now u d0 m) (f # rest))"
      using a add not_new unfolding a_rest by simp
    moreover have "\<forall>x \<in> set (f # rest). registered_ok drv uuid now u d0 m x
                  \<longrightarrow> find_registered u (file_id x) dF \<noteq> []"
      using p_rest not_new by simp
    ultimately show ?thesis using full k by blast
  qed
qed

lemma remove_documents_keys: "doc_keys (snd (remove_documents now m (res, d))) = doc_keys d"
proof (induction m arbitrary: res d)
  case Nil
  then show ?case by simp
next
  case (Cons a m)
  obtain g i where a: "a = (g, i)" by (cases a)
  have "doc_keys (d\<lparr>documents := map (\<lambda>row. if doc_id row = i
                         then row\<lparr>is_active := False, doc_updated_at := now\<rparr> else row)
                       (documents d)\<rparr>) = doc_keys d"
    by (rule doc_keys_map[where f = "\<lambda>row. if doc_id row = i
                         then row\<lparr>is_active := False, doc_updated_at := now\<rparr> else row"])
       simp_all
  then show ?case unfolding a by (simp add: Cons.IH)
qed

lemma registered_accounted:
  "length (List.map_filter (recorded_error drv now u d m) files)
     + length (filter (synced_ok drv now u d m) files)
     = length (filter (\<lambda>f. map_of m (file_id f) \<noteq> None) files)"
  by (induction files)
     (auto simp add: map_filter_simps recorded_error_def synced_ok_def
        split: option.splits sum.splits)

text \<open>
  Claim C9. \<open>syncAllDocuments\<close> throws the configuration error when the user has no
  watched folder, throws the error of the listing when the listing fails, and otherwise
  returns one aggregate result. With the primary keys of \<open>documents\<close> and \<open>segments\<close>,
  generated identifiers that are new, and a listing that names each file once, every
  listed file is processed as it would be alone on the database the call started from,
  whatever happened to the files before it. The \<open>errors\<close> are, in the order of the
  listing, the error of every registered file whose reconciliation throws, under the
  document's identifier; \<open>documents_synced\<close> counts the registered files whose
  reconciliation returns, and the two together account for every registered file of the
  listing; \<open>documents_added\<close> counts the files that are not registered and whose
  registration returns, and each of these has a row of the user in the table the call
  leaves.
\<close>

theorem syncAllDocuments_failures:
  "(watched_folder userId d = None \<longrightarrow>
      syncAllDocuments drv uuid now userId d
        = (Inl (AppError ''No watched folder configured'' 400), d))
   \<and> (\<forall>folderId e.
        watched_folder userId d = Some folderId \<and> files_list drv folderId = Inl e \<longrightarrow>
          syncAllDocuments drv uuid now userId d = (Inl e, d))
   \<and> (\<forall>folderId files.
        watched_folder userId d = Some folderId \<and> files_list drv folderId = Inr files \<longrightarrow>
          (\<exists>res d'. syncAllDocuments drv uuid now userId d = (Inr res, d')
             \<and> (distinct (map doc_id (documents d)) \<and> distinct (map seg_id (segments d))
                \<and> distinct (map file_id files)
                \<and> inj uuid \<and> (\<forall>n. uuid n \<notin> doc_id ` set (documents d)) \<longrightarrow>
                  errors res
                    = List.map_filter
                        (recorded_error drv now userId d
                           (dbDocsMap_of (active_documents userId d))) files
                  \<and> documents_synced res
                    = length (filter (synced_ok drv now userId d
                                        (dbDocsMap_of (active_documents userId d))) files)
                  \<and> documents_synced res + length (errors res)
                    = length (filter (\<lambda>f. map_of (dbDocsMap_of (active_documents userId d))
                                              (file_id f) \<noteq> None) files)
                  \<and> documents_added res
                    = length (filter (registered_ok drv uuid now userId d
                                        (dbDocsMap_of (active_documents userId d))) files)
                  \<and> (\<forall>f \<in> set files.
                        registered_ok drv uuid now userId d
                          (dbDocsMap_of (active_documents userId d)) f
                        \<longrightarrow> find_registered userId (file_id f) d' \<noteq> []))))"
proof (intro conjI allI impI)
  assume "watched_folder userId d = None"
  then show "syncAllDocuments drv uuid now userId d
        = (Inl (AppError ''No watched folder configured'' 400), d)"
    by (simp add: syncAllDocuments_def)
next
  fix folderId e
  assume "watched_folder userId d = Some folderId \<and> files_list drv folderId = Inl e"
  then show "syncAllDocuments drv uuid now userId d = (Inl e, d)"
    by (simp add: syncAllDocuments_def)
next
  fix folderId files
  assume a: "watched_folder userId d = Some folderId \<and> files_list drv folderId = Inr files"
  let ?m = "dbDocsMap_of (active_documents userId d)"
  obtain res1 remaining d1 where
    loop: "process_files drv uuid now userId files (initial_full_result, ?m, d)
             = (res1, remaining, d1)"
    by (cases "process_files drv uuid now userId files (initial_full_result, ?m, d)")
  obtain res2 d2 where removed: "remove_documents now remaining (res1, d1) = (res2, d2)"
    by (cases "remove_documents now remaining (res1, d1)")
  let ?d3 = "d2\<lparr>sync_log := sync_log d2 @
               [log_row userId None ''full_sync'' ''success'' (FullResultDetails res2)]\<rparr>"
  have run: "syncAllDocuments drv uuid now userId d = (Inr res2, ?d3)"
    using a loop removed by (simp add: syncAllDocuments_def logSync_None)
  have keep: "errors res2 = errors res1" "documents_synced res2 = documents_synced res1"
    "documents_added res2 = documents_added res1"
    using remove_documents_result[of now remaining res1 d1] removed by simp_all
  have keys3: "doc_keys ?d3 = doc_keys d1"
    using remove_documents_keys[of now remaining res1 d1] removed by (simp add: doc_keys_def)
  have counted: "errors res2 = List.map_filter (recorded_error drv now userId d ?m) files
                 \<and> documents_synced res2 = length (filter (synced_ok drv now userId d ?m) files)
                 \<and> documents_synced res2 + length (errors res2)
                    = length (filter (\<lambda>f. map_of ?m (file_id f) \<noteq> None) files)
                 \<and> documents_added res2
                    = length (filter (registered_ok drv uuid now userId d ?m) files)
                 \<and> (\<forall>f \<in> set files. registered_ok drv uuid now userId d ?m f
                        \<longrightarrow> find_registered userId (file_id f) ?d3 \<noteq> [])"
    if pk: "distinct (map doc_id (documents d))" and spk: "distinct (map seg_id (segments d))"
      and once: "distinct (map file_id files)" and inj: "inj uuid"
      and fresh: "\<forall>n. uuid n \<notin> doc_id ` set (documents d)"
  proof -
    have inv: "loop_invariant uuid userId d ?m files d"
      unfolding loop_invariant_def
      using dbDocsMap_first_file[OF pk] spk by auto
    from process_files_result[OF inv once inj, of drv now initial_full_result] fresh loop
    obtain extra where keys1: "doc_keys d1 = doc_keys d @ extra"
      and e1: "errors res1 = errors initial_full_result
                 @ List.map_filter (recorded_error drv now userId d ?m) files"
      and s1: "documents_synced res1 = documents_synced initial_full_result
                 + length (filter (synced_ok drv now userId d ?m) files)"
      and a1: "documents_added res1 = documents_added initial_full_result
                 + length (filter (registered_ok drv uuid now userId d ?m) files)"
      and p1: "\<forall>f \<in> set files. registered_ok drv uuid now userId d ?m f
                  \<longrightarrow> find_registered userId (file_id f) d1 \<noteq> []"
      by auto
    have e: "errors res2 = List.map_filter (recorded_error drv now userId d ?m) files"
      and s: "documents_synced res2 = length (filter (synced_ok drv now userId d ?m) files)"
      and ad: "documents_added res2
                 = length (filter (registered_ok drv uuid now userId d ?m) files)"
      using e1 s1 a1 keep by (simp_all add: initial_full_result_def)
    have p: "\<forall>f \<in> set files. registered_ok drv uuid now userId d ?m f
                        \<longrightarrow> find_registered userId (file_id f) ?d3 \<noteq> []"
      using p1 find_registered_same_keys[OF keys3] by simp
    show ?thesis
      using e s ad p registered_accounted[of drv now userId d ?m files] by simp
  qed
  show "\<exists>res d'. syncAllDocuments drv uuid now userId d = (Inr res, d')
             \<and> (distinct (map doc_id (documents d)) \<and> distinct (map seg_id (segments d))
                \<and> distinct (map file_id files)
                \<and> inj uuid \<and> (\<forall>n. uuid n \<notin> doc_id ` set (documents d)) \<longrightarrow>
                  errors res = List.map_filter (recorded_error drv now userId d ?m) files
                  \<and> documents_synced res = length (filter (synced_ok drv now userId d ?m) files)
                  \<and> documents_synced res + length (errors res)
                    = length (filter (\<lambda>f. map_of ?m (file_id f) \<noteq> None) files)
                  \<and> documents_added res
                    = length (filter (registered_ok drv uuid now userId d ?m) files)
                  \<and> (\<forall>f \<in> set files. registered_ok drv uuid now userId d ?m f
                        \<longrightarrow> find_registered userId (file_id f) d' \<noteq> []))"
    using run counted by blast
qed

theorem syncAllDocuments_failures_witness:
  "watched_folder ''u1'' two_docs_db = Some ''f1''
   \<and> files_list ex_provider ''f1'' = Inr [ex_meta ''g1'', ex_meta ''g2'', ex_meta ''g3'']
   \<and> distinct (map doc_id (documents two_docs_db))
   \<and> distinct (map seg_id (segments two_docs_db))
   \<and> distinct (map file_id [ex_meta ''g1'', ex_meta ''g2'', ex_meta ''g3''])
   \<and> map_of (dbDocsMap_of (active_documents ''u1'' two_docs_db)) ''g1'' = Some ''d1''
   \<and> fst (syncDocument (documents_get ex_provider) 20 ''u1'' ''d1'' two_docs_db)
       = Inl \<lparr>statusCode = None, code = Some 500, message = ''Backend Error''\<rparr>
   \<and> (\<exists>res d'. syncAllDocuments ex_provider ex_uuid 20 ''u1'' two_docs_db = (Inr res, d')
         \<and> errors res = [\<lparr>err_document_id = ''d1'', err_error = ''Backend Error''\<rparr>]
         \<and> documents_synced res = 1
         \<and> documents_added res = 1
         \<and> find_registered ''u1'' ''g3'' d' \<noteq> [])
   \<and> watched_folder ''u2'' two_docs_db = None
   \<and> syncAllDocuments ex_provider ex_uuid 20 ''u2'' two_docs_db
       = (Inl (AppError ''No watched folder configured'' 400), two_docs_db)"
proof -
  let ?files = "[ex_meta ''g1'', ex_meta ''g2'', ex_meta ''g3'']"
  let ?m = "dbDocsMap_of (active_documents ''u1'' two_docs_db)"
  have folder: "watched_folder ''u1'' two_docs_db = Some ''f1''"
    by code_simp
  have listing: "files_list ex_provider ''f1'' = Inr ?files"
    by (simp add: ex_provider_def)
  have pk: "distinct (map doc_id (documents two_docs_db))"
    by (simp add: two_docs_db_def ex_document_def)
  have spk: "distinct (map seg_id (segments two_docs_db))"
    by (simp add: two_docs_db_def ex_db_def ex_segment_def)
  have once: "distinct (map file_id ?files)"
    by (simp add: ex_meta_def)
  have inj: "inj ex_uuid"
    by (rule injI) (simp add: ex_uuid_def)
  have fresh: "\<forall>n. ex_uuid n \<notin> doc_id ` set (documents two_docs_db)"
    by (simp add: ex_uuid_def two_docs_db_def ex_document_def)
  have entry: "map_of ?m ''g1'' = Some ''d1''"
    by code_simp
  have thrown: "fst (syncDocument (documents_get ex_provider) 20 ''u1'' ''d1'' two_docs_db)
       = Inl \<lparr>statusCode = None, code = Some 500, message = ''Backend Error''\<rparr>"
    by code_simp
  have errs: "List.map_filter (recorded_error ex_provider 20 ''u1'' two_docs_db ?m) ?files
                = [\<lparr>err_document_id = ''d1'', err_error = ''Backend Error''\<rparr>]"
    by code_simp
  have oks: "length (filter (synced_ok ex_provider 20 ''u1'' two_docs_db ?m) ?files) = 1"
    by code_simp
  have adds: "length (filter (registered_ok ex_provider ex_uuid 20 ''u1'' two_docs_db ?m) ?files) = 1"
    by code_simp
  have g3: "registered_ok ex_provider ex_uuid 20 ''u1'' two_docs_db ?m (ex_meta ''g3'')"
    by code_simp
  have g3_id: "file_id (ex_meta ''g3'') = ''g3''"
    by (simp add: ex_meta_def)
  note T = syncAllDocuments_failures[of "''u1''" two_docs_db ex_provider ex_uuid 20]
  from T[THEN conjunct2, THEN conjunct2, rule_format, of "''f1''" ?files] folder listing
  obtain res d' where run: "syncAllDocuments ex_provider ex_uuid 20 ''u1'' two_docs_db = (Inr res, d')"
    and counted: "distinct (map doc_id (documents two_docs_db))
                \<and> distinct (map seg_id (segments two_docs_db))
                \<and> distinct (map file_id ?files)
                \<and> inj ex_uuid \<and> (\<forall>n. ex_uuid n \<notin> doc_id ` set (documents two_docs_db)) \<longrightarrow>
                  errors res = List.map_filter (recorded_error ex_provider 20 ''u1'' two_docs_db ?m) ?files
                  \<and> documents_synced res
                      = length (filter (synced_ok ex_provider 20 ''u1'' two_docs_db ?m) ?files)
                  \<and> documents_synced res + length (errors res)
                    = length (filter (\<lambda>f. map_of ?m (file_id f) \<noteq> None) ?files)
                  \<and> documents_added res
                      = length (filter (registered_ok ex_provider ex_uuid 20 ''u1'' two_docs_db ?m)
                                  ?files)
                  \<and> (\<forall>f \<in> set ?files.
                        registered_ok ex_provider ex_uuid 20 ''u1'' two_docs_db ?m f
                        \<longrightarrow> find_registered ''u1'' (file_id f) d' \<noteq> [])"
    by blast
  have all: "errors res = List.map_filter (recorded_error ex_provider 20 ''u1'' two_docs_db ?m) ?files
                  \<and> documents_synced res
                      = length (filter (synced_ok ex_provider 20 ''u1'' two_docs_db ?m) ?files)
                  \<and> documents_synced res + length (errors res)
                    = length (filter (\<lambda>f. map_of ?m (file_id f) \<noteq> None) ?files)
                  \<and> documents_added res
                      = length (filter (registered_ok ex_provider ex_uuid 20 ''u1'' two_docs_db ?m)
                                  ?files)
                  \<and> (\<forall>f \<in> set ?files.
                        registered_ok ex_provider ex_uuid 20 ''u1'' two_docs_db ?m f
                        \<longrightarrow> find_registered ''u1'' (file_id f) d' \<noteq> [])"
    using counted pk spk once inj fresh by blast
  have e: "errors res = [\<lparr>err_document_id = ''d1'', err_error = ''Backend Error''\<rparr>]"
    and s: "documents_synced res = 1"
    and ad: "documents_added res = 1"
    using all errs oks adds by simp_all
  have "find_registered ''u1'' (file_id (ex_meta ''g3'')) d' \<noteq> []"
    using all g3 by simp
  then have row: "find_registered ''u1'' ''g3'' d' \<noteq> []"
    unfolding g3_id .
  have part: "\<exists>res d'. syncAllDocuments ex_provider ex_uuid 20 ''u1'' two_docs_db = (Inr res, d')
         \<and> errors res = [\<lparr>err_document_id = ''d1'', err_error = ''Backend Error''\<rparr>]
         \<and> documents_synced res = 1
         \<and> documents_added res = 1
         \<and> find_registered ''u1'' ''g3'' d' \<noteq> []"
    using run e s ad row by blast
  have nofolder: "watched_folder ''u2'' two_docs_db = None"
    by code_simp
  note T2 = syncAllDocuments_failures[of "''u2''" two_docs_db ex_provider ex_uuid 20]
  have raised: "syncAllDocuments ex_provider ex_uuid 20 ''u2'' two_docs_db
       = (Inl (AppError ''No watched folder configured'' 400), two_docs_db)"
    using T2[THEN conjunct1] nofolder by blast
  show ?thesis
    using folder listing pk spk once entry thrown part nofolder raised by (intro conjI)
qed

end

